theory Spec2Isabelle
  imports Complex_Main
begin

section \<open>Numbers\<close>

text \<open>
  JavaScript numbers are modelled as mathematical reals: rounding of IEEE doubles is not
  part of the model, and \<open>NaN\<close> does not occur in it. The one non-finite value the code
  stores, \<open>Infinity\<close> (the initial g- and f-scores of the pathfinder), is a constructor of
  its own. \<open>Infinity < Infinity\<close> is false and \<open>Infinity + d\<close> is \<open>Infinity\<close>, as in
  JavaScript.
\<close>

datatype jsnum = Num real | Infinity

instantiation jsnum :: linorder
begin

fun less_eq_jsnum :: "jsnum \<Rightarrow> jsnum \<Rightarrow> bool" where
  "less_eq_jsnum (Num a) (Num b) = (a \<le> b)"
| "less_eq_jsnum Infinity (Num b) = False"
| "less_eq_jsnum a Infinity = True"

definition less_jsnum :: "jsnum \<Rightarrow> jsnum \<Rightarrow> bool" where
  "less_jsnum a b = (a \<le> b \<and> \<not> b \<le> (a::jsnum))"

instance
proof
  fix a b c :: jsnum
  show "(a < b) = (a \<le> b \<and> \<not> b \<le> a)"
    by (simp add: less_jsnum_def)
  show "a \<le> a"
    by (cases a) simp_all
  show "a \<le> b \<Longrightarrow> b \<le> c \<Longrightarrow> a \<le> c"
    by (cases a; cases b; cases c) simp_all
  show "a \<le> b \<Longrightarrow> b \<le> a \<Longrightarrow> a = b"
    by (cases a; cases b) simp_all
  show "a \<le> b \<or> b \<le> a"
    by (cases a; cases b) auto
qed

end

instantiation jsnum :: plus
begin

fun plus_jsnum :: "jsnum \<Rightarrow> jsnum \<Rightarrow> jsnum" where
  "plus_jsnum (Num a) (Num b) = Num (a + b)"
| "plus_jsnum Infinity b = Infinity"
| "plus_jsnum a Infinity = Infinity"

instance ..

end

section \<open>Helpers of the simulation panels\<close>

text \<open>\<open>function clamp(v, lo, hi) { return Math.max(lo, Math.min(hi, v)); }\<close>\<close>

definition clamp :: "real \<Rightarrow> real \<Rightarrow> real \<Rightarrow> real" where
  "clamp v lo hi = max lo (min hi v)"

text \<open>
  \<open>wrapPi\<close> runs two loops one after the other: the first subtracts \<open>2\<pi>\<close> while the
  angle is above \<open>\<pi>\<close>, the second adds \<open>2\<pi>\<close> while it is below \<open>-\<pi>\<close>. Each loop
  is a recursive function whose termination is proved with the number of remaining turns
  as the measure.
\<close>

function wrapPi_loop1 :: "real \<Rightarrow> real" where
  "wrapPi_loop1 a = (if a > pi then wrapPi_loop1 (a - 2 * pi) else a)"
  by pat_completeness auto
termination
proof (relation "measure (\<lambda>a. nat \<lceil>(a - pi) / (2 * pi)\<rceil>)")
  show "wf (measure (\<lambda>a. nat \<lceil>(a - pi) / (2 * pi)\<rceil>))"
    by simp
next
  fix a :: real
  assume above: "pi < a"
  have "(a - 2 * pi - pi) / (2 * pi) = (a - pi) / (2 * pi) - 1"
    by (simp add: field_simps)
  then have turn: "\<lceil>(a - 2 * pi - pi) / (2 * pi)\<rceil> = \<lceil>(a - pi) / (2 * pi)\<rceil> - 1"
    by simp
  have "0 < (a - pi) / (2 * pi)"
    using above by simp
  then have "0 < \<lceil>(a - pi) / (2 * pi)\<rceil>"
    by (simp add: less_ceiling_iff)
  with turn show "(a - 2 * pi, a) \<in> measure (\<lambda>a. nat \<lceil>(a - pi) / (2 * pi)\<rceil>)"
    by simp
qed

function wrapPi_loop2 :: "real \<Rightarrow> real" where
  "wrapPi_loop2 a = (if a < - pi then wrapPi_loop2 (a + 2 * pi) else a)"
  by pat_completeness auto
termination
proof (relation "measure (\<lambda>a. nat \<lceil>(- pi - a) / (2 * pi)\<rceil>)")
  show "wf (measure (\<lambda>a. nat \<lceil>(- pi - a) / (2 * pi)\<rceil>))"
    by simp
next
  fix a :: real
  assume below: "a < - pi"
  have "(- pi - (a + 2 * pi)) / (2 * pi) = (- pi - a) / (2 * pi) - 1"
    by (simp add: field_simps)
  then have turn: "\<lceil>(- pi - (a + 2 * pi)) / (2 * pi)\<rceil> = \<lceil>(- pi - a) / (2 * pi)\<rceil> - 1"
    by simp
  have "0 < (- pi - a) / (2 * pi)"
    using below by simp
  then have "0 < \<lceil>(- pi - a) / (2 * pi)\<rceil>"
    by (simp add: less_ceiling_iff)
  with turn show "(a + 2 * pi, a) \<in> measure (\<lambda>a. nat \<lceil>(- pi - a) / (2 * pi)\<rceil>)"
    by simp
qed

declare wrapPi_loop1.simps [simp del]
declare wrapPi_loop2.simps [simp del]

definition wrapPi :: "real \<Rightarrow> real" where
  "wrapPi a = wrapPi_loop2 (wrapPi_loop1 a)"

text \<open>\<open>function angleDiff(a, b) { return wrapPi(a - b); }\<close>\<close>

definition angleDiff :: "real \<Rightarrow> real \<Rightarrow> real" where
  "angleDiff a b = wrapPi (a - b)"

section \<open>Pathfinder (\<open>utils/astar.js\<close>)\<close>

text \<open>
  The graph argument is an object \<open>{ id: { x, y, neighbors: [id] } }\<close>: a finite map from
  node ids (strings) to nodes. Reading a property of \<open>undefined\<close> (a node id that is not a
  key of the object) raises a \<open>TypeError\<close> in JavaScript; the model returns it as a value.
  Node ids are taken not to be names that every JavaScript object inherits
  (\<open>constructor\<close>, \<open>toString\<close>, \<open>__proto__\<close>, ...), so that a lookup in \<open>nodes\<close>, \<open>gScore\<close>,
  \<open>fScore\<close> and \<open>cameFrom\<close> is a lookup among the keys that were stored.
\<close>

type_synonym id = string

datatype error = TypeError

record point =
  x :: real
  y :: real

record node = point +
  neighbors :: "id list"

type_synonym graph = "id \<rightharpoonup> node"

text \<open>\<open>Math.hypot(a, b)\<close>\<close>

definition hypot :: "real \<Rightarrow> real \<Rightarrow> real" where
  "hypot a b = sqrt (a\<^sup>2 + b\<^sup>2)"

text \<open>
  The heuristic \<open>h(id)\<close>: \<open>nodes[id]\<close> and \<open>nodes[endId]\<close> are read and their
  coordinates subtracted; either lookup may be \<open>undefined\<close>.
\<close>

definition h :: "graph \<Rightarrow> id \<Rightarrow> id \<Rightarrow> error + real" where
  "h nodes endId i =
     (case nodes i of
        None \<Rightarrow> Inl TypeError
      | Some n \<Rightarrow>
          (case nodes endId of
             None \<Rightarrow> Inl TypeError
           | Some end \<Rightarrow> Inr (hypot (x n - x end) (y n - y end))))"

text \<open>
  The local state of \<open>findPath\<close>. The score tables are total functions: every key of
  \<open>nodes\<close> is initialised to \<open>Infinity\<close>, and a key outside \<open>nodes\<close> is never read,
  because \<open>nodes[nextId].x\<close> raises before \<open>gScore[nextId]\<close> is reached.
\<close>

record astar =
  openSet :: "id list"
  cameFrom :: "id \<rightharpoonup> id"
  gScore :: "id \<Rightarrow> jsnum"
  fScore :: "id \<Rightarrow> jsnum"

text \<open>
  \<open>Array.prototype.reduce\<close> without an initial value: the accumulator starts as the first
  element and the callback is applied to the others from left to right; on an empty array
  it raises a \<open>TypeError\<close>.
\<close>

fun reduce :: "('a \<Rightarrow> 'a \<Rightarrow> 'a) \<Rightarrow> 'a list \<Rightarrow> error + 'a" where
  "reduce f [] = Inl TypeError"
| "reduce f (a # bs) = Inr (foldl f a bs)"

text \<open>\<open>openSet.reduce((a, b) => fScore[a] < fScore[b] ? a : b)\<close>\<close>

definition lowest :: "(id \<Rightarrow> jsnum) \<Rightarrow> id list \<Rightarrow> error + id" where
  "lowest fS os = reduce (\<lambda>a b. if fS a < fS b then a else b) os"

text \<open>
  The body of the \<open>for (let nextId of neighbors)\<close> loop for one neighbour, and the loop
  itself by recursion on the neighbour list; \<open>openSet.push\<close> appends at the end.
\<close>

definition relaxStep :: "graph \<Rightarrow> id \<Rightarrow> id \<Rightarrow> id \<Rightarrow> astar \<Rightarrow> error + astar" where
  "relaxStep nodes endId current nextId st =
     (case nodes current of
        None \<Rightarrow> Inl TypeError
      | Some c \<Rightarrow>
          (case nodes nextId of
             None \<Rightarrow> Inl TypeError
           | Some n \<Rightarrow>
               (let dist = hypot (x c - x n) (y c - y n);
                    tentativeG = gScore st current + Num dist
                in if tentativeG < gScore st nextId then
                     (case h nodes endId nextId of
                        Inl e \<Rightarrow> Inl e
                      | Inr hv \<Rightarrow>
                          Inr (st\<lparr>cameFrom := (cameFrom st)(nextId \<mapsto> current),
                                  gScore := (gScore st)(nextId := tentativeG),
                                  fScore := (fScore st)(nextId := tentativeG + Num hv),
                                  openSet := (if nextId \<in> set (openSet st) then openSet st
                                              else openSet st @ [nextId])\<rparr>))
                   else Inr st)))"

fun relax :: "graph \<Rightarrow> id \<Rightarrow> id \<Rightarrow> id list \<Rightarrow> astar \<Rightarrow> error + astar" where
  "relax nodes endId current [] st = Inr st"
| "relax nodes endId current (nextId # rest) st =
     (case relaxStep nodes endId current nextId st of
        Inl e \<Rightarrow> Inl e
      | Inr st' \<Rightarrow> relax nodes endId current rest st')"

text \<open>
  Path reconstruction: \<open>while (cameFrom[current]) { current = cameFrom[current];
  path.unshift(current); }\<close>. The loop condition is a truthiness test, so it stops at a
  missing entry and also at an entry that is the empty string. The loop has no bound of
  its own, hence a partial function: \<open>None\<close> is "does not return".
\<close>

partial_function (option) reconstruct :: "(id \<rightharpoonup> id) \<Rightarrow> id \<Rightarrow> id list \<Rightarrow> id list option" where
  "reconstruct cf current path =
     (case cf current of
        None \<Rightarrow> Some path
      | Some p \<Rightarrow> if p = [] then Some path else reconstruct cf p (p # path))"

text \<open>
  The main \<open>while (openSet.length > 0)\<close> loop. The result is \<open>None\<close> if the loop does not
  return, \<open>Some (Inl e)\<close> if it raises, \<open>Some (Inr None)\<close> for \<open>return null\<close> and
  \<open>Some (Inr (Some path))\<close> for \<open>return path\<close>. \<open>openSet.splice(openSet.indexOf(current), 1)\<close>
  removes the first occurrence of \<open>current\<close>, which is an element of \<open>openSet\<close>.
\<close>

partial_function (option) search :: "graph \<Rightarrow> id \<Rightarrow> astar \<Rightarrow> (error + id list option) option" where
  "search nodes endId st =
     (if openSet st = [] then Some (Inr None)
      else
        (case lowest (fScore st) (openSet st) of
           Inl e \<Rightarrow> Some (Inl e)
         | Inr current \<Rightarrow>
             if current = endId then
               (case reconstruct (cameFrom st) current [current] of
                  None \<Rightarrow> None
                | Some path \<Rightarrow> Some (Inr (Some path)))
             else
               (case nodes current of
                  None \<Rightarrow> Some (Inl TypeError)
                | Some c \<Rightarrow>
                    (case relax nodes endId current (neighbors c)
                            (st\<lparr>openSet := remove1 current (openSet st)\<rparr>) of
                       Inl e \<Rightarrow> Some (Inl e)
                     | Inr st' \<Rightarrow> search nodes endId st'))))"

definition findPath :: "graph \<Rightarrow> id \<Rightarrow> id \<Rightarrow> (error + id list option) option" where
  "findPath nodes startId endId =
     (case h nodes endId startId of
        Inl e \<Rightarrow> Some (Inl e)
      | Inr h0 \<Rightarrow>
          search nodes endId
            \<lparr>openSet = [startId], cameFrom = Map.empty,
             gScore = (\<lambda>_. Infinity)(startId := Num 0),
             fScore = (\<lambda>_. Infinity)(startId := Num h0)\<rparr>)"

text \<open>
  Notions used to state the pathfinder's properties. The length of the edge between two
  nodes is the Euclidean distance of their coordinates; the cost of a list of nodes is the
  sum of the lengths of its consecutive edges; a route is a non-empty list of nodes of the
  graph in which each node is listed among the neighbours of the one before it.
\<close>

definition edgeLen :: "graph \<Rightarrow> id \<Rightarrow> id \<Rightarrow> real" where
  "edgeLen nodes u v =
     (case nodes u of
        None \<Rightarrow> 0
      | Some a \<Rightarrow> (case nodes v of None \<Rightarrow> 0 | Some b \<Rightarrow> hypot (x a - x b) (y a - y b)))"

fun cost :: "graph \<Rightarrow> id list \<Rightarrow> real" where
  "cost nodes [] = 0"
| "cost nodes [u] = 0"
| "cost nodes (u # v # rest) = edgeLen nodes u v + cost nodes (v # rest)"




text \<open>
  Invariants of the search loop. \<open>ranked\<close>: the predecessor map is acyclic, certified by
  a rank: along every predecessor link the g-score drops, or stays and the rank drops.
\<close>

definition ranked :: "astar \<Rightarrow> bool" where
  "ranked st = (\<exists>rank :: id \<Rightarrow> nat. \<forall>v u. cameFrom st v = Some u \<longrightarrow>
      gScore st u < gScore st v \<or> (gScore st u = gScore st v \<and> rank u < rank v))"

text \<open>
  \<open>simpleCosts\<close>: every finite g-score is the cost of a list of distinct nodes from the
  start to that node, none of whose prefixes is cheaper than the g-score of its end.
\<close>

definition simpleCosts :: "graph \<Rightarrow> id \<Rightarrow> astar \<Rightarrow> bool" where
  "simpleCosts nodes s st = (\<forall>v. gScore st v \<noteq> Infinity \<longrightarrow>
      (\<exists>p. p \<noteq> [] \<and> hd p = s \<and> last p = v \<and> distinct p \<and> set p \<subseteq> dom nodes
           \<and> gScore st v = Num (cost nodes p)
           \<and> (\<forall>q r. p = q @ r \<longrightarrow> q \<noteq> [] \<longrightarrow> gScore st (last q) \<le> Num (cost nodes q))))"

definition invTerm :: "graph \<Rightarrow> id \<Rightarrow> astar \<Rightarrow> bool" where
  "invTerm nodes s st = (dom (cameFrom st) \<subseteq> dom nodes \<and> ranked st \<and> simpleCosts nodes s st)"

text \<open>
  The termination measure: the costs of the lists of distinct nodes form a finite set, and
  \<open>slack\<close> counts, over all nodes, how many of them lie below the node's g-score.
\<close>

definition simpleCostSet :: "graph \<Rightarrow> real set" where
  "simpleCostSet nodes = cost nodes ` {p. set p \<subseteq> dom nodes \<and> distinct p}"

definition below :: "graph \<Rightarrow> jsnum \<Rightarrow> real set" where
  "below nodes c = {r \<in> simpleCostSet nodes. Num r < c}"









text \<open>
  The tie-break as the specification words it, for comparison with \<open>lowest\<close>: the first
  node of the open set, in iteration order, whose f-score is minimal.
\<close>

definition firstMinimal :: "(id \<Rightarrow> jsnum) \<Rightarrow> id list \<Rightarrow> id option" where
  "firstMinimal fS os = find (\<lambda>a. list_all (\<lambda>b. fS a \<le> fS b) os) os"

text \<open>
  A four-node graph with two routes of equal length from \<open>s\<close> to \<open>g\<close>, and the state of
  \<open>findPath\<close> on it after the expansion of \<open>s\<close>.
\<close>

definition diamond :: graph where
  "diamond = [''s'' \<mapsto> \<lparr>x = 0, y = 0, neighbors = [''a'', ''b'']\<rparr>,
              ''a'' \<mapsto> \<lparr>x = 3, y = 4, neighbors = [''g'']\<rparr>,
              ''b'' \<mapsto> \<lparr>x = 3, y = - 4, neighbors = [''g'']\<rparr>,
              ''g'' \<mapsto> \<lparr>x = 6, y = 0, neighbors = []\<rparr>]"

definition diamondExpanded :: astar where
  "diamondExpanded =
     \<lparr>openSet = [''a'', ''b''],
      cameFrom = [''a'' \<mapsto> ''s'', ''b'' \<mapsto> ''s''],
      gScore = (\<lambda>_. Infinity)(''s'' := Num 0, ''a'' := Num 5, ''b'' := Num 5),
      fScore = (\<lambda>_. Infinity)(''s'' := Num 6, ''a'' := Num 10, ''b'' := Num 10)\<rparr>"

section \<open>Demo sequencer (\<open>Level2Auto\<close> in \<open>TabViews/Limitations.js\<close>)\<close>





text \<open>The sequencer cursor \<open>seqRef.current = { idx, t }\<close>.\<close>

record seq =
  idx :: nat
  t :: real






section \<open>Bidirectionality panel (first \<open>Bidirectionality\<close> component)\<close>

text \<open>
  The component keeps its simulation state in refs that the game-loop callback reads and
  writes; the React state variables mirror them for rendering and are not modelled.
  The string-valued modes only ever hold the literals below.
\<close>

datatype priorKind = WEAK | STRONG_CORRECT | STRONG_WRONG

datatype simKind = BIDIR | STUBBORN

record landmark = point +
  label :: string

record pose = point +
  theta :: real

definition WORLD_W :: real where "WORLD_W = 400"
definition WORLD_H :: real where "WORLD_H = 300"

definition L1 :: landmark where "L1 = \<lparr>x = 340, y = 80, label = ''L1''\<rparr>"
definition L2 :: landmark where "L2 = \<lparr>x = 340, y = 220, label = ''L2''\<rparr>"
definition VANTAGE :: landmark where "VANTAGE = \<lparr>x = 200, y = 150, label = ''V''\<rparr>"
definition BEACON :: landmark where "BEACON = \<lparr>x = 320, y = 60, label = ''B''\<rparr>"
definition START :: pose where "START = \<lparr>x = 60, y = 150, theta = 0\<rparr>"

definition SHIFT_Y :: real where "SHIFT_Y = 140"
definition V_SENSE_RADIUS :: real where "V_SENSE_RADIUS = 55"
definition CONF_THRESH :: real where "CONF_THRESH = 0.40"
definition SPEED :: real where "SPEED = 90"
definition TURN_RATE :: real where "TURN_RATE = 3.5"
definition STUB_DITHER_PERIOD :: real where "STUB_DITHER_PERIOD = 1.6"
definition SENSE_PERIOD :: real where "SENSE_PERIOD = 0.35"

text \<open>
  \<open>Math.atan2(b, a)\<close> on reals, and \<open>randn()\<close>, the Box-Muller transform. \<open>randn\<close>
  draws \<open>u\<close> and \<open>v\<close> from \<open>Math.random()\<close> until each is non-zero; the model takes the
  two accepted draws as arguments.
\<close>

definition atan2 :: "real \<Rightarrow> real \<Rightarrow> real" where
  "atan2 b a =
     (if a > 0 then arctan (b / a)
      else if a < 0 then (if b \<ge> 0 then arctan (b / a) + pi else arctan (b / a) - pi)
      else if b > 0 then pi / 2
      else if b < 0 then - pi / 2
      else 0)"

definition randn :: "real \<Rightarrow> real \<Rightarrow> real" where
  "randn u v = sqrt (- 2 * ln u) * cos (2 * pi * v)"

record measInfo =
  meas :: real
  sigma :: real
  pred1 :: real
  pred2 :: real
  err1 :: real
  err2 :: real
  winner :: string
  inVantage :: bool

record sim =
  running :: bool
  robot :: pose
  belief :: "real \<times> real"
  priorMode :: priorKind
  simMode :: simKind
  action :: string
  measInfo :: "measInfo option"
  elapsed :: real
  senseTimer :: real
  stubTimer :: real
  stubSide :: int

definition computeInitialBelief :: "priorKind \<Rightarrow> real \<times> real" where
  "computeInitialBelief m =
     (if m = WEAK then (0.5, 0.5)
      else if m = STRONG_CORRECT then (0.9, 0.1)
      else (0.1, 0.9))"

text \<open>
  \<open>reset(newPrior, newSimMode)\<close>; \<open>rnd\<close> is the value of \<open>Math.random()\<close> that picks
  the first dither side.
\<close>

definition reset :: "sim \<Rightarrow> real \<Rightarrow> priorKind \<Rightarrow> simKind \<Rightarrow> sim" where
  "reset st rnd newPrior newSimMode =
     st\<lparr>running := False, priorMode := newPrior, simMode := newSimMode,
        robot := START, belief := computeInitialBelief newPrior,
        action := ''IDLE'', measInfo := None,
        elapsed := 0, senseTimer := 0,
        stubTimer := 0, stubSide := (if rnd < 0.5 then 0 else 1)\<rparr>"

definition start :: "sim \<Rightarrow> sim" where
  "start st = st\<lparr>running := True\<rparr>"

definition pause :: "sim \<Rightarrow> sim" where
  "pause st = st\<lparr>running := False\<rparr>"

text \<open>
  The top-down part of the callback: the target and the action label chosen from belief,
  mode and prior, with the dither timer and side it leaves behind.
\<close>

definition chooseTarget :: "sim \<Rightarrow> real \<Rightarrow> landmark \<times> string \<times> real \<times> int" where
  "chooseTarget st dt =
     (let w1 = fst (belief st); w2 = snd (belief st);
          confident = (\<bar>w1 - w2\<bar> \<ge> CONF_THRESH);
          bidir =
            (if simMode st = BIDIR then
               (if confident then
                  (if w1 \<ge> w2 then L1 else L2,
                   if w1 \<ge> w2 then ''GO_TO_L1 (belief commit)'' else ''GO_TO_L2 (belief commit)'')
                else (VANTAGE, ''GO_TO_V (active localization)''))
             else (VANTAGE, ''GO_TO_V (active localization)''))
      in if simMode st = STUBBORN then
           (if priorMode st = STRONG_CORRECT then
              (L1, ''GO_TO_L1 (stubborn prior)'', stubTimer st, stubSide st)
            else if priorMode st = STRONG_WRONG then
              (L2, ''GO_TO_L2 (stubborn prior)'', stubTimer st, stubSide st)
            else
              (let tm = stubTimer st + dt;
                   flip = (tm > STUB_DITHER_PERIOD);
                   tm' = (if flip then 0 else tm);
                   side = (if flip then 1 - stubSide st else stubSide st)
               in (if side = 0 then L1 else L2, ''DITHER (weak prior; no updates)'', tm', side)))
         else (fst bidir, snd bidir, stubTimer st, stubSide st))"

text \<open>The move: a turn limited by the turn rate, then a step along the new heading.\<close>

definition move :: "pose \<Rightarrow> landmark \<Rightarrow> real \<Rightarrow> pose" where
  "move r target dt =
     (let dx = x target - x r;
          dy = y target - y r;
          dist = hypot dx dy
      in if dist > 2.5 then
           (let desired = atan2 dy dx;
                dth = angleDiff desired (theta r);
                turn = clamp dth (- TURN_RATE * dt) (TURN_RATE * dt);
                th = wrapPi (theta r + turn);
                x1 = x r + cos th * (SPEED * dt);
                y1 = y r + sin th * (SPEED * dt)
            in r\<lparr>x := clamp x1 10 (WORLD_W - 10), y := clamp y1 10 (WORLD_H - 10), theta := th\<rparr>)
         else r)"

text \<open>
  The tempered belief update of a sense event: likelihoods of the two angular errors,
  raised to \<open>alpha = 0.70\<close>, multiplied into the belief, and normalised when the sum is
  above \<open>1e-9\<close>; otherwise the belief is kept.
\<close>

definition preSum :: "real \<times> real \<Rightarrow> real \<Rightarrow> real \<Rightarrow> real \<Rightarrow> real" where
  "preSum b e1 e2 sg =
     (let lh1 = exp (- 0.5 * (e1 / sg) * (e1 / sg));
          lh2 = exp (- 0.5 * (e2 / sg) * (e2 / sg));
          alpha = 0.70
      in fst b * lh1 powr alpha + snd b * lh2 powr alpha)"

definition beliefUpdate :: "real \<times> real \<Rightarrow> real \<Rightarrow> real \<Rightarrow> real \<Rightarrow> real \<times> real" where
  "beliefUpdate b e1 e2 sg =
     (let lh1 = exp (- 0.5 * (e1 / sg) * (e1 / sg));
          lh2 = exp (- 0.5 * (e2 / sg) * (e2 / sg));
          alpha = 0.70;
          nw1 = fst b * lh1 powr alpha;
          nw2 = snd b * lh2 powr alpha;
          s = nw1 + nw2
      in if s > 1 / 10 ^ 9 then (nw1 / s, nw2 / s) else b)"

text \<open>
  The body of \<open>if (shouldSense)\<close>: noise level, noisy bearing to the beacon, the two
  predicted bearings, their errors, the belief update and the measurement record.
  \<open>rn\<close> is the value of \<open>randn()\<close>.
\<close>

definition sense :: "pose \<Rightarrow> real \<times> real \<Rightarrow> real \<Rightarrow> bool \<Rightarrow> real \<Rightarrow> (real \<times> real) \<times> measInfo" where
  "sense r b dV inV rn =
     (let sg = clamp (0.045 + 0.15 * (dV / V_SENSE_RADIUS)) 0.045 0.20;
          trueBear = wrapPi (atan2 (y BEACON - y r) (x BEACON - x r) - theta r);
          ms = wrapPi (trueBear + rn * sg);
          p1 = wrapPi (atan2 (y BEACON - y r) (x BEACON - x r) - theta r);
          ghostY = clamp (y r + SHIFT_Y) 10 (WORLD_H - 10);
          p2 = wrapPi (atan2 (y BEACON - ghostY) (x BEACON - x r) - theta r);
          e1 = \<bar>angleDiff ms p1\<bar>;
          e2 = \<bar>angleDiff ms p2\<bar>
      in (beliefUpdate b e1 e2 sg,
          \<lparr>meas = ms, sigma = sg, pred1 = p1, pred2 = p2, err1 = e1, err2 = e2,
           winner = (if e1 \<le> e2 then ''H1 (Near L1)'' else ''H2 (Near L2)''),
           inVantage = inV\<rparr>))"

text \<open>
  The pose after the move of a tick, its distance to the vantage point, and the sensing
  gate \<open>shouldSense\<close> evaluated there.
\<close>

definition moved :: "sim \<Rightarrow> real \<Rightarrow> pose" where
  "moved st dt = move (robot st) (fst (chooseTarget st dt)) dt"

definition distV :: "sim \<Rightarrow> real \<Rightarrow> real" where
  "distV st dt = hypot (x VANTAGE - x (moved st dt)) (y VANTAGE - y (moved st dt))"

definition shouldSense :: "sim \<Rightarrow> real \<Rightarrow> bool" where
  "shouldSense st dt =
     (simMode st \<noteq> STUBBORN
      \<and> senseTimer st + dt \<ge> SENSE_PERIOD
      \<and> (simMode st = BIDIR \<and> distV st dt \<le> V_SENSE_RADIUS))"

text \<open>
  One call of the game-loop callback with raw delta \<open>dtMs\<close>. \<open>u\<close> and \<open>v\<close> are the draws of
  \<open>randn()\<close>, \<open>rnd\<close> the draw of the auto-loop \<open>reset\<close>; each is used only on the branch
  that draws it.
\<close>

definition tick :: "sim \<Rightarrow> real \<Rightarrow> real \<Rightarrow> real \<Rightarrow> real \<Rightarrow> sim" where
  "tick st dtMs u v rnd =
     (if \<not> running st then st
      else
        (let dt = dtMs / 1000
         in if dt \<le> 0 \<or> dt > 0.25 then st
            else
              (let choice = chooseTarget st dt;
                   r = moved st dt;
                   sensed = sense r (belief st) (distV st dt) (distV st dt \<le> V_SENSE_RADIUS) (randn u v);
                   st1 =
                     (if shouldSense st dt then
                        st\<lparr>senseTimer := 0, belief := fst sensed, measInfo := Some (snd sensed)\<rparr>
                      else
                        st\<lparr>senseTimer := senseTimer st + dt,
                           measInfo := (if simMode st = STUBBORN \<and> measInfo st \<noteq> None then None
                                        else measInfo st)\<rparr>);
                   st2 =
                     st1\<lparr>robot := r, action := fst (snd choice),
                         stubTimer := fst (snd (snd choice)), stubSide := snd (snd (snd choice)),
                         elapsed := elapsed st + dt\<rparr>
               in if elapsed st2 > 28 then reset st2 rnd (priorMode st2) (simMode st2) else st2)))"

text \<open>
  What can happen to the panel: a frame of the game loop, the Run and Pause buttons, and the
  Reset, prior and mode buttons, which all call \<open>reset\<close>. \<open>mounted\<close> is the state after
  the mount effect \<open>reset('WEAK', 'BIDIR')\<close> on the initial values of the refs.
\<close>

datatype event = Tick real real real real | Start | Pause | Reset priorKind simKind real

fun fire :: "sim \<Rightarrow> event \<Rightarrow> sim" where
  "fire st (Tick dtMs u v rnd) = tick st dtMs u v rnd"
| "fire st Start = start st"
| "fire st Pause = pause st"
| "fire st (Reset p m rnd) = reset st rnd p m"

definition runEvents :: "sim \<Rightarrow> event list \<Rightarrow> sim" where
  "runEvents st es = foldl fire st es"

definition initial :: sim where
  "initial =
     \<lparr>running = False, robot = START, belief = (0.5, 0.5), priorMode = WEAK, simMode = BIDIR,
      action = ''IDLE'', measInfo = None, elapsed = 0, senseTimer = 0, stubTimer = 0,
      stubSide = 0\<rparr>"

definition mounted :: "real \<Rightarrow> sim" where
  "mounted rnd = reset initial rnd WEAK BIDIR"

fun isReset :: "event \<Rightarrow> bool" where
  "isReset (Reset p m rnd) = True"
| "isReset e = False"

text \<open>
  Notions used to state the properties of the panel: a belief vector is valid when both
  weights are non-negative and sum to 1; a call of the callback is processed when the
  simulation runs and the delta is inside \<open>(0, 0.25]\<close> seconds; \<open>measured\<close> is the
  sense event of a tick (belief after the update, measurement record).
\<close>

definition validBelief :: "real \<times> real \<Rightarrow> bool" where
  "validBelief b = (0 \<le> fst b \<and> 0 \<le> snd b \<and> fst b + snd b = 1)"

definition processed :: "sim \<Rightarrow> real \<Rightarrow> bool" where
  "processed st dtMs = (running st \<and> 0 < dtMs / 1000 \<and> dtMs / 1000 \<le> 0.25)"

definition measured :: "sim \<Rightarrow> real \<Rightarrow> real \<Rightarrow> real \<Rightarrow> (real \<times> real) \<times> measInfo" where
  "measured st dt u v =
     sense (moved st dt) (belief st) (distV st dt) (distV st dt \<le> V_SENSE_RADIUS) (randn u v)"



text \<open>
  A concrete run from the mounted panel: Run, then four frames of 250 ms. The robot drives
  from \<open>x = 60\<close> towards the vantage point and is at \<open>x = 150\<close>, inside the sensing
  radius, when the fourth frame senses.
\<close>

definition approach :: "event list" where
  "approach = [Start, Tick 250 (1/2) (1/4) (1/2), Tick 250 (1/2) (1/4) (1/2),
               Tick 250 (1/2) (1/4) (1/2), Tick 250 (1/2) (1/4) (1/2)]"

definition atVantage :: sim where
  "atVantage = runEvents (mounted (1/2)) approach"



text \<open>
  Draws of \<open>randn()\<close> for two kinds of sense event. With \<open>degenerateU\<close> and
  \<open>degenerateV\<close> the noise is \<open>7.8\<close> standard deviations (\<open>sqrt (-2 ln u) = 8.45\<close> and
  \<open>cos (2\<pi>v) = 12/13\<close>), which puts the measured bearing far from both predicted
  bearings. With \<open>mildU\<close> and \<open>v = 1/2\<close> the measured bearing of a robot at
  \<open>(150, 150)\<close> heading east lies a hundredth of a radian beyond the middle between the two
  predicted bearings \<open>- arctan (9/17)\<close> and \<open>- arctan (23/17)\<close>, so that the event says
  little; \<open>mildBelief\<close> is the belief such an event makes of the WEAK prior.
\<close>

definition degenerateU :: real where
  "degenerateU = exp (- (28561 / 800))"

definition degenerateV :: real where
  "degenerateV = arccos (12 / 13) / (2 * pi)"

definition midNoise :: real where
  "midNoise = - ((arctan (23 / 17) - arctan (9 / 17)) / 2 + 1 / 100)"

definition mildU :: real where
  "mildU = exp (- ((midNoise * (2200 / 399))\<^sup>2 / 2))"

definition mildBelief :: "real \<times> real" where
  "mildBelief = fst (sense \<lparr>x = 150, y = 150, theta = 0\<rparr> (1/2, 1/2) 50 True (randn mildU (1/2)))"

text \<open>
  Two runs from the mounted panel. \<open>nearRun\<close>: Run, then five frames of 250 ms; the fourth
  senses at \<open>x = 150\<close> with the mild draw, and after the fifth the robot is at
  \<open>x = 172.5\<close> with a stored measurement record. \<open>lateRun\<close> goes on with a frame of
  250 ms, a frame of 50 ms, which brings the robot to \<open>x = 199.5\<close>, where it stays, and
  105 frames of 250 ms, every sense event of which draws the 7.8-sigma noise: 27.8 s in all.
\<close>

definition nearRun :: "event list" where
  "nearRun =
     [Start,
      Tick 250 degenerateU degenerateV (1/2), Tick 250 degenerateU degenerateV (1/2),
      Tick 250 degenerateU degenerateV (1/2), Tick 250 mildU (1/2) (1/2),
      Tick 250 degenerateU degenerateV (1/2)]"

definition nearVantage :: sim where
  "nearVantage = runEvents (mounted (1/2)) nearRun"

definition lateRun :: "event list" where
  "lateRun =
     nearRun
     @ [Tick 250 degenerateU degenerateV (1/2), Tick 50 degenerateU degenerateV (1/2)]
     @ replicate 105 (Tick 250 degenerateU degenerateV (1/2))"

definition latePanel :: sim where
  "latePanel = runEvents (mounted (1/2)) lateRun"

text \<open>
  The panel is on the approach line when it runs in BIDIR mode under the WEAK prior and the
  robot is at \<open>(px, 150)\<close> heading east, with the given timers and belief.
\<close>

definition onLine :: "sim \<Rightarrow> real \<Rightarrow> real \<Rightarrow> real \<Rightarrow> real \<times> real \<Rightarrow> bool" where
  "onLine st px el tm b =
     (running st \<and> simMode st = BIDIR \<and> priorMode st = WEAK
      \<and> robot st = \<lparr>x = px, y = 150, theta = 0\<rparr>
      \<and> elapsed st = el \<and> senseTimer st = tm \<and> belief st = b)"

section \<open>Angle wrap\<close>










section \<open>Sequencer transitions and wrap-around\<close>













section \<open>Tie-break of the open-set extraction\<close>

lemma foldl_pick_last_minimal:
  fixes fS :: "'a \<Rightarrow> jsnum"
  defines "pick \<equiv> (\<lambda>a b. if fS a < fS b then a else b)"
  shows "\<exists>ys zs. a # bs = ys @ foldl pick a bs # zs
            \<and> (\<forall>y \<in> set ys. fS (foldl pick a bs) \<le> fS y)
            \<and> (\<forall>z \<in> set zs. fS (foldl pick a bs) < fS z)"
proof (induction bs rule: rev_induct)
  case Nil
  show ?case by (intro exI [of _ "[]"]) simp
next
  case (snoc b bs)
  let ?m = "foldl pick a bs"
  from snoc obtain ys zs where split: "a # bs = ys @ ?m # zs"
    and before: "\<forall>y \<in> set ys. fS ?m \<le> fS y" and after: "\<forall>z \<in> set zs. fS ?m < fS z"
    by blast
  show ?case
  proof (cases "fS ?m < fS b")
    case True
    then have "foldl pick a (bs @ [b]) = ?m" by (simp add: pick_def)
    moreover have "a # bs @ [b] = ys @ ?m # (zs @ [b])" using split by simp
    moreover have "\<forall>z \<in> set (zs @ [b]). fS ?m < fS z" using after True by simp
    ultimately show ?thesis using before by metis
  next
    case False
    then have res: "foldl pick a (bs @ [b]) = b" by (simp add: pick_def)
    have le: "fS b \<le> fS ?m" using False by simp
    have "\<forall>y \<in> set (a # bs). fS b \<le> fS y"
    proof
      fix y assume "y \<in> set (a # bs)"
      then have "y \<in> set ys \<or> y = ?m \<or> y \<in> set zs" using split by (metis Un_iff set_ConsD set_append)
      then have "fS ?m \<le> fS y" using before after by auto
      with le show "fS b \<le> fS y" by simp
    qed
    moreover have "a # bs @ [b] = (a # bs) @ b # []" by simp
    ultimately show ?thesis unfolding res by (metis empty_iff list.set(1))
  qed
qed

text \<open>
  Claim C9, as the code has it. The callback keeps the accumulator only when its f-score
  is strictly smaller, so among several nodes of minimal f-score the one extracted is the
  last in the open set's order: every node before it has an f-score at least as large,
  every node after it a strictly larger one.
\<close>

theorem lowest_is_last_minimal:
  "os \<noteq> [] \<Longrightarrow> \<exists>m ys zs. lowest fS os = Inr m \<and> os = ys @ m # zs
      \<and> (\<forall>y \<in> set ys. fS m \<le> fS y) \<and> (\<forall>z \<in> set zs. fS m < fS z)"
proof -
  assume "os \<noteq> []"
  then obtain a bs where os: "os = a # bs" by (cases os) auto
  from foldl_pick_last_minimal [of a bs fS] show ?thesis
    unfolding os lowest_def by simp
qed

theorem lowest_is_last_minimal_witness:
  "lowest (fScore diamondExpanded) (openSet diamondExpanded) = Inr ''b''"
proof -
  have ne: "openSet diamondExpanded \<noteq> []"
    by (simp add: diamondExpanded_def)
  from lowest_is_last_minimal [OF ne, of "fScore diamondExpanded"]
  obtain m ys zs where m: "lowest (fScore diamondExpanded) (openSet diamondExpanded) = Inr m"
    and split: "openSet diamondExpanded = ys @ m # zs"
    and after: "\<forall>z \<in> set zs. fScore diamondExpanded m < fScore diamondExpanded z"
    by blast
  have mem: "m = ''a'' \<or> m = ''b''"
    using split by (metis diamondExpanded_def astar.select_convs(1) in_set_conv_decomp insert_iff
        list.set(2) empty_iff list.set(1))
  have "zs = []"
  proof (rule ccontr)
    assume "zs \<noteq> []"
    then obtain z where z: "z \<in> set zs" by (cases zs) auto
    then have "z \<in> set (openSet diamondExpanded)" using split by simp
    then have "z = ''a'' \<or> z = ''b''" by (simp add: diamondExpanded_def)
    with mem after z show False by (auto simp: diamondExpanded_def)
  qed
  with split have "last (openSet diamondExpanded) = m" by simp
  then have "m = ''b''" by (simp add: diamondExpanded_def)
  with m show ?thesis by simp
qed

text \<open>
  On the diamond graph the expansion of \<open>s\<close> leaves \<open>a\<close> and \<open>b\<close> open with the same
  f-score 10. The first minimal node in iteration order is \<open>a\<close>; the code extracts \<open>b\<close>,
  and the returned route runs through \<open>b\<close>.
\<close>

theorem lowest_tie_counterexample:
  "lowest (fScore diamondExpanded) (openSet diamondExpanded) = Inr ''b''
   \<and> firstMinimal (fScore diamondExpanded) (openSet diamondExpanded) = Some ''a''
   \<and> findPath diamond ''s'' ''g'' = Some (Inr (Some [''s'', ''b'', ''g'']))"
  by (simp add: lowest_def firstMinimal_def diamondExpanded_def findPath_def diamond_def h_def
      hypot_def search.simps relaxStep_def reconstruct.simps less_jsnum_def Let_def)


section \<open>Belief filter and policy of the Bidirectionality panel\<close>

lemma tick_skipped:
  "\<not> processed st dtMs \<Longrightarrow> tick st dtMs u v rnd = st"
  by (auto simp: tick_def processed_def Let_def)

lemma tick_belief:
  assumes "processed st dtMs"
  shows "belief (tick st dtMs u v rnd) =
     (if 28 < elapsed st + dtMs / 1000 then computeInitialBelief (priorMode st)
      else if shouldSense st (dtMs / 1000) then fst (measured st (dtMs / 1000) u v)
      else belief st)"
  using assms by (simp add: tick_def processed_def Let_def reset_def measured_def)

lemma tick_measInfo:
  assumes "processed st dtMs"
  shows "measInfo (tick st dtMs u v rnd) =
     (if 28 < elapsed st + dtMs / 1000 then None
      else if shouldSense st (dtMs / 1000) then Some (snd (measured st (dtMs / 1000) u v))
      else if simMode st = STUBBORN then None
      else measInfo st)"
  using assms by (auto simp: tick_def processed_def Let_def reset_def measured_def)

lemma tick_running:
  assumes "processed st dtMs"
  shows "running (tick st dtMs u v rnd) = (\<not> 28 < elapsed st + dtMs / 1000)"
  using assms by (simp add: tick_def processed_def Let_def reset_def)

lemma tick_modes:
  "priorMode (tick st dtMs u v rnd) = priorMode st \<and> simMode (tick st dtMs u v rnd) = simMode st"
  by (simp add: tick_def Let_def reset_def)

lemma computeInitialBelief_valid: "validBelief (computeInitialBelief p)"
  by (simp add: computeInitialBelief_def validBelief_def)

lemma beliefUpdate_valid:
  assumes "validBelief b"
  shows "validBelief (beliefUpdate b e1 e2 sg)"
proof -
  define nw1 where "nw1 = fst b * exp (- 0.5 * (e1 / sg) * (e1 / sg)) powr 0.70"
  define nw2 where "nw2 = snd b * exp (- 0.5 * (e2 / sg) * (e2 / sg)) powr 0.70"
  have nn: "0 \<le> nw1" "0 \<le> nw2"
    using assms by (simp_all add: nw1_def nw2_def validBelief_def)
  have upd: "beliefUpdate b e1 e2 sg =
      (if nw1 + nw2 > 1 / 10 ^ 9 then (nw1 / (nw1 + nw2), nw2 / (nw1 + nw2)) else b)"
    by (simp add: beliefUpdate_def Let_def nw1_def nw2_def)
  show ?thesis
  proof (cases "nw1 + nw2 > 1 / 10 ^ 9")
    case False
    with upd assms show ?thesis by simp
  next
    case True
    then have pos: "0 < nw1 + nw2" by (simp add: less_trans [OF _ True])
    have "nw1 / (nw1 + nw2) + nw2 / (nw1 + nw2) = 1"
      using pos by (simp add: add_divide_distrib [symmetric])
    with True upd nn pos show ?thesis by (simp add: validBelief_def)
  qed
qed

lemma sense_valid:
  "validBelief b \<Longrightarrow> validBelief (fst (sense r b dV inV rn))"
  by (simp add: sense_def Let_def beliefUpdate_valid)

lemma tick_valid:
  assumes "validBelief (belief st)"
  shows "validBelief (belief (tick st dtMs u v rnd))"
proof (cases "processed st dtMs")
  case False
  then show ?thesis using assms by (simp add: tick_skipped)
next
  case True
  show ?thesis
    using assms by (simp add: tick_belief [OF True] computeInitialBelief_valid measured_def sense_valid)
qed

lemma fire_valid:
  "validBelief (belief st) \<Longrightarrow> validBelief (belief (fire st e))"
  by (cases e) (simp_all add: tick_valid start_def pause_def reset_def computeInitialBelief_valid)

lemma runEvents_valid:
  "validBelief (belief st) \<Longrightarrow> validBelief (belief (runEvents st es))"
  unfolding runEvents_def
  by (induction es arbitrary: st) (simp_all add: fire_valid)

text \<open>
  Claim C2. From any configured prior and mode (\<open>reset\<close>), after any sequence of frames
  and button presses, the belief vector satisfies \<open>w1 + w2\<close> within \<open>1e-6\<close> of 1 and both
  weights are non-negative; in particular this holds after every sense event that performs
  an update. (On reals the sum is exactly 1.)
\<close>

theorem belief_normalized:
  "\<bar>fst (belief (runEvents (reset st0 rnd p m) es)) + snd (belief (runEvents (reset st0 rnd p m) es)) - 1\<bar> \<le> 1 / 10 ^ 6
   \<and> 0 \<le> fst (belief (runEvents (reset st0 rnd p m) es))
   \<and> 0 \<le> snd (belief (runEvents (reset st0 rnd p m) es))"
proof -
  have "validBelief (belief (reset st0 rnd p m))"
    by (simp add: reset_def computeInitialBelief_valid)
  then have "validBelief (belief (runEvents (reset st0 rnd p m) es))"
    by (rule runEvents_valid)
  then show ?thesis by (simp add: validBelief_def)
qed




lemma fire_stubborn:
  assumes "\<not> isReset e"
    and "simMode st = STUBBORN \<and> priorMode st = STRONG_WRONG \<and> belief st = (0.1, 0.9)"
  shows "simMode (fire st e) = STUBBORN \<and> priorMode (fire st e) = STRONG_WRONG
           \<and> belief (fire st e) = (0.1, 0.9)"
proof (cases e)
  case (Tick dtMs u v rnd)
  show ?thesis
  proof (cases "processed st dtMs")
    case False
    with assms Tick show ?thesis by (simp add: tick_skipped)
  next
    case True
    have "\<not> shouldSense st (dtMs / 1000)"
      using assms(2) by (simp add: shouldSense_def)
    with assms(2) Tick show ?thesis
      by (simp add: tick_belief [OF True] tick_modes computeInitialBelief_def)
  qed
qed (use assms in \<open>simp_all add: start_def pause_def\<close>)

lemma runEvents_stubborn:
  "\<not> list_ex isReset es \<Longrightarrow>
   simMode st = STUBBORN \<and> priorMode st = STRONG_WRONG \<and> belief st = (0.1, 0.9) \<Longrightarrow>
   simMode (runEvents st es) = STUBBORN \<and> priorMode (runEvents st es) = STRONG_WRONG
     \<and> belief (runEvents st es) = (0.1, 0.9)"
  unfolding runEvents_def
proof (induction es arbitrary: st)
  case Nil
  then show ?case by simp
next
  case (Cons e es)
  then have "\<not> isReset e" "\<not> list_ex isReset es" by simp_all
  from Cons.IH [OF this(2) fire_stubborn [OF this(1) Cons.prems(2)]] show ?case by simp
qed

text \<open>
  Claim C6. In STUBBORN mode with prior STRONG_WRONG, in every state reached by frames,
  Run and Pause (the 28 s auto-loop included), the target chosen by the policy is \<open>L2\<close>
  and the belief is the initial \<open>(0.1, 0.9)\<close>.
\<close>

theorem stubborn_strong_wrong:
  assumes "\<not> list_ex isReset es"
  shows "fst (chooseTarget (runEvents (reset st0 rnd STRONG_WRONG STUBBORN) es) dt) = L2
       \<and> belief (runEvents (reset st0 rnd STRONG_WRONG STUBBORN) es) = (0.1, 0.9)
       \<and> belief (reset st0 rnd STRONG_WRONG STUBBORN) = (0.1, 0.9)"
proof -
  have init: "simMode (reset st0 rnd STRONG_WRONG STUBBORN) = STUBBORN
      \<and> priorMode (reset st0 rnd STRONG_WRONG STUBBORN) = STRONG_WRONG
      \<and> belief (reset st0 rnd STRONG_WRONG STUBBORN) = (0.1, 0.9)"
    by (simp add: reset_def computeInitialBelief_def)
  from runEvents_stubborn [OF assms init] init show ?thesis
    by (simp add: chooseTarget_def Let_def)
qed

text \<open>
  Claim C4, as the code has it. On a processed frame whose sensing gate does not hold, the
  belief is left unchanged, and the measurement record is cleared in STUBBORN mode only; in
  BIDIR mode it is kept. A frame that also passes the 28 s auto-loop limit resets the
  panel: the belief is the prior's and the record is cleared.
\<close>

theorem gate_closed_tick:
  assumes "processed st dtMs" "\<not> shouldSense st (dtMs / 1000)"
  shows "belief (tick st dtMs u v rnd) =
           (if 28 < elapsed st + dtMs / 1000 then computeInitialBelief (priorMode st) else belief st)
       \<and> measInfo (tick st dtMs u v rnd) =
           (if 28 < elapsed st + dtMs / 1000 \<or> simMode st = STUBBORN then None else measInfo st)"
  using assms by (simp add: tick_belief tick_measInfo)

lemma wrapPi_id: "- pi \<le> a \<Longrightarrow> a \<le> pi \<Longrightarrow> wrapPi a = a"
  by (simp add: wrapPi_def wrapPi_loop1.simps wrapPi_loop2.simps)

lemma wrapPi_0 [simp]: "wrapPi 0 = 0"
  by (simp add: wrapPi_id)

lemmas panel_consts = WORLD_W_def WORLD_H_def L1_def L2_def VANTAGE_def BEACON_def START_def
  SHIFT_Y_def V_SENSE_RADIUS_def CONF_THRESH_def SPEED_def TURN_RATE_def STUB_DITHER_PERIOD_def
  SENSE_PERIOD_def

lemma chooseTarget_ambiguous:
  assumes "running st" "simMode st = BIDIR" "belief st = (0.5, 0.5)"
  shows "chooseTarget st dt = (VANTAGE, ''GO_TO_V (active localization)'', stubTimer st, stubSide st)"
    using assms by (simp add: chooseTarget_def Let_def CONF_THRESH_def)

lemma move_east:
  assumes "10 \<le> x0" "x0 \<le> 175"
  shows "move \<lparr>x = x0, y = 150, theta = 0\<rparr> VANTAGE 0.25 = \<lparr>x = x0 + 22.5, y = 150, theta = 0\<rparr>"
proof -
  have hy: "hypot (200 - x0) 0 = 200 - x0"
    using assms by (simp add: hypot_def)
  have at: "atan2 0 (200 - x0) = 0"
    using assms by (simp add: atan2_def)
  show ?thesis
    using assms
    by (simp add: move_def Let_def VANTAGE_def hy at angleDiff_def clamp_def TURN_RATE_def SPEED_def WORLD_W_def WORLD_H_def)
qed

lemma approach_tick:
  assumes "running st" "simMode st = BIDIR" "belief st = (0.5, 0.5)"
    "robot st = \<lparr>x = x0, y = 150, theta = 0\<rparr>" "10 \<le> x0" "x0 \<le> 175" "elapsed st \<le> 27"
  shows "tick st 250 u v rnd =
     (if senseTimer st + 0.25 \<ge> 0.35 \<and> 122.5 \<le> x0 then
        st\<lparr>senseTimer := 0, belief := fst (measured st (1/4) u v),
           measInfo := Some (snd (measured st (1/4) u v)),
           robot := \<lparr>x = x0 + 22.5, y = 150, theta = 0\<rparr>,
           action := ''GO_TO_V (active localization)'',
           stubTimer := stubTimer st, stubSide := stubSide st, elapsed := elapsed st + 0.25\<rparr>
      else
        st\<lparr>senseTimer := senseTimer st + 0.25, measInfo := measInfo st,
           robot := \<lparr>x = x0 + 22.5, y = 150, theta = 0\<rparr>,
           action := ''GO_TO_V (active localization)'',
           stubTimer := stubTimer st, stubSide := stubSide st, elapsed := elapsed st + 0.25\<rparr>)"
proof -
  note c = chooseTarget_ambiguous [OF assms(1,2,3)]
  have mv: "moved st (1/4) = \<lparr>x = x0 + 22.5, y = 150, theta = 0\<rparr>"
    using move_east [OF assms(5,6)] by (simp add: moved_def c assms(4))
  have "hypot (200 - (x0 + 22.5)) 0 = 177.5 - x0"
    using assms(6) by (simp add: hypot_def)
  then have dv: "distV st (1/4) = 177.5 - x0"
    by (simp add: distV_def mv VANTAGE_def)
  have ss: "shouldSense st (1/4) = (senseTimer st + 0.25 \<ge> 0.35 \<and> 122.5 \<le> x0)"
    using assms(2) by (auto simp: shouldSense_def dv V_SENSE_RADIUS_def SENSE_PERIOD_def)
  have el: "\<not> 28 < elapsed st + 0.25"
    using assms(7) by simp
  show ?thesis
    using assms(1,2) el
    by (simp add: tick_def Let_def c mv ss measured_def)
qed

lemma atVantage_state:
  "running atVantage \<and> simMode atVantage = BIDIR \<and> senseTimer atVantage = 0
   \<and> elapsed atVantage = 1 \<and> measInfo atVantage \<noteq> None
   \<and> robot atVantage = \<lparr>x = 150, y = 150, theta = 0\<rparr>"
proof -
  define s0 where "s0 = start (mounted (1/2))"
  define s1 where "s1 = tick s0 250 (1/2) (1/4) (1/2)"
  define s2 where "s2 = tick s1 250 (1/2) (1/4) (1/2)"
  define s3 where "s3 = tick s2 250 (1/2) (1/4) (1/2)"
  have av: "atVantage = tick s3 250 (1/2) (1/4) (1/2)"
    by (simp add: atVantage_def approach_def runEvents_def s0_def s1_def s2_def s3_def)
  have p0: "running s0" "simMode s0 = BIDIR" "belief s0 = (0.5, 0.5)"
      "robot s0 = \<lparr>x = 60, y = 150, theta = 0\<rparr>" "elapsed s0 = 0" "senseTimer s0 = 0"
    by (simp_all add: s0_def start_def mounted_def reset_def initial_def computeInitialBelief_def START_def)
  have e1: "s1 = s0\<lparr>senseTimer := 0.25, measInfo := measInfo s0,
           robot := \<lparr>x = 82.5, y = 150, theta = 0\<rparr>,
           action := ''GO_TO_V (active localization)'',
           stubTimer := stubTimer s0, stubSide := stubSide s0, elapsed := 0.25\<rparr>"
    unfolding s1_def using approach_tick [OF p0(1,2,3,4), of "1/2" "1/4" "1/2"] p0(5,6) by simp
  have p1: "running s1" "simMode s1 = BIDIR" "belief s1 = (0.5, 0.5)"
      "robot s1 = \<lparr>x = 82.5, y = 150, theta = 0\<rparr>" "elapsed s1 = 0.25" "senseTimer s1 = 0.25"
    using p0 by (simp_all add: e1)
  have e2: "s2 = s1\<lparr>senseTimer := 0.5, measInfo := measInfo s1,
           robot := \<lparr>x = 105, y = 150, theta = 0\<rparr>,
           action := ''GO_TO_V (active localization)'',
           stubTimer := stubTimer s1, stubSide := stubSide s1, elapsed := 0.5\<rparr>"
    unfolding s2_def using approach_tick [OF p1(1,2,3,4), of "1/2" "1/4" "1/2"] p1(5,6) by simp
  have p2: "running s2" "simMode s2 = BIDIR" "belief s2 = (0.5, 0.5)"
      "robot s2 = \<lparr>x = 105, y = 150, theta = 0\<rparr>" "elapsed s2 = 0.5" "senseTimer s2 = 0.5"
    using p1 by (simp_all add: e2)
  have e3: "s3 = s2\<lparr>senseTimer := 0.75, measInfo := measInfo s2,
           robot := \<lparr>x = 127.5, y = 150, theta = 0\<rparr>,
           action := ''GO_TO_V (active localization)'',
           stubTimer := stubTimer s2, stubSide := stubSide s2, elapsed := 0.75\<rparr>"
    unfolding s3_def using approach_tick [OF p2(1,2,3,4), of "1/2" "1/4" "1/2"] p2(5,6) by simp
  have p3: "running s3" "simMode s3 = BIDIR" "belief s3 = (0.5, 0.5)"
      "robot s3 = \<lparr>x = 127.5, y = 150, theta = 0\<rparr>" "elapsed s3 = 0.75" "senseTimer s3 = 0.75"
    using p2 by (simp_all add: e3)
  have e4: "atVantage = s3\<lparr>senseTimer := 0, belief := fst (measured s3 (1/4) (1/2) (1/4)),
           measInfo := Some (snd (measured s3 (1/4) (1/2) (1/4))),
           robot := \<lparr>x = 150, y = 150, theta = 0\<rparr>,
           action := ''GO_TO_V (active localization)'',
           stubTimer := stubTimer s3, stubSide := stubSide s3, elapsed := 1\<rparr>"
    unfolding av using approach_tick [OF p3(1,2,3,4), of "1/2" "1/4" "1/2"] p3(5,6) by simp
  show ?thesis
    using p3 by (simp add: e4)
qed

text \<open>
  After the run \<open>approach\<close> the fourth frame has sensed. On the next frame of 16 ms the
  gate does not hold (the sense timer is at 0.016 s), the mode is BIDIR, and the stored
  measurement record is still there.
\<close>

theorem stale_measurement_counterexample:
  "processed atVantage 16 \<and> \<not> shouldSense atVantage (16 / 1000)
   \<and> measInfo atVantage \<noteq> None
   \<and> measInfo (tick atVantage 16 (1/2) (1/4) (1/2)) = measInfo atVantage"
proof -
  have pr: "processed atVantage 16"
    using atVantage_state by (simp add: processed_def)
  have ns: "\<not> shouldSense atVantage (16 / 1000)"
    using atVantage_state by (simp add: shouldSense_def SENSE_PERIOD_def)
  have "measInfo (tick atVantage 16 (1/2) (1/4) (1/2)) = measInfo atVantage"
    using atVantage_state ns by (simp add: tick_measInfo [OF pr])
  with pr ns atVantage_state show ?thesis by simp
qed

theorem gate_closed_tick_witness:
  "belief (tick (start (mounted (1/2))) 250 (1/2) (1/4) (1/2)) = (0.5, 0.5)
   \<and> measInfo (tick (start (mounted (1/2))) 250 (1/2) (1/4) (1/2)) = None"
proof -
  have pr: "processed (start (mounted (1/2))) 250"
    by (simp add: processed_def start_def)
  have ns: "\<not> shouldSense (start (mounted (1/2))) (250 / 1000)"
    by (simp add: shouldSense_def SENSE_PERIOD_def start_def mounted_def reset_def)
  from gate_closed_tick [OF pr ns, of "1/2" "1/4" "1/2"] show ?thesis
    by (simp add: start_def mounted_def reset_def initial_def computeInitialBelief_def)
qed

theorem stubborn_strong_wrong_witness:
  "fst (chooseTarget (runEvents (reset initial (1/2) STRONG_WRONG STUBBORN)
          [Start, Tick 16 (1/2) (1/4) (1/2), Pause, Start, Tick 250 (1/2) (1/4) (1/2)]) (16 / 1000)) = L2
   \<and> belief (runEvents (reset initial (1/2) STRONG_WRONG STUBBORN)
          [Start, Tick 16 (1/2) (1/4) (1/2), Pause, Start, Tick 250 (1/2) (1/4) (1/2)]) = (0.1, 0.9)
   \<and> belief (reset initial (1/2) STRONG_WRONG STUBBORN) = (0.1, 0.9)"
  by (rule stubborn_strong_wrong) simp




section \<open>Degenerate normalisation\<close>

lemma randn_degenerate: "randn degenerateU degenerateV = 39 / 5"
proof -
  have "sqrt (- 2 * ln degenerateU) = sqrt ((169 / 20)\<^sup>2)"
    by (simp add: degenerateU_def power2_eq_square)
  also have "\<dots> = 169 / 20" by simp
  finally have a: "sqrt (- 2 * ln degenerateU) = 169 / 20" .
  have b: "cos (2 * pi * degenerateV) = 12 / 13"
    by (simp add: degenerateV_def)
  show ?thesis
    unfolding randn_def a b by simp
qed

lemma exp_21: "(10 :: real) ^ 9 \<le> exp 21"
proof -
  have "(145 / 128 :: real) = 1 + 1 / 8 + (1 / 8)\<^sup>2 / 2"
    by (simp add: power2_eq_square)
  also have "\<dots> \<le> exp (1 / 8)"
    by (rule exp_lower_Taylor_quadratic) simp
  finally have base: "(145 / 128 :: real) \<le> exp (1 / 8)" .
  have "(27 / 10 :: real) \<le> (145 / 128) ^ 8"
    by (simp add: power_divide)
  also have "\<dots> \<le> exp (1 / 8) ^ 8"
    using base by (intro power_mono) simp_all
  also have "\<dots> = exp 1"
    by (simp add: exp_of_nat_mult [symmetric])
  finally have e1: "(27 / 10 :: real) \<le> exp 1" .
  have "(10 :: real) ^ 9 \<le> (27 / 10) ^ 21"
    by (simp add: power_divide)
  also have "\<dots> \<le> exp 1 ^ 21"
    using e1 by (intro power_mono) simp_all
  also have "\<dots> = exp 21"
    by (simp add: exp_of_nat_mult [symmetric])
  finally show ?thesis .
qed

lemma arctan_bounds_pos:
  fixes a :: real
  assumes "0 < a"
  shows "0 < arctan a" "arctan a < pi / 2"
  using assms arctan_ubound [of a] by (simp_all add: zero_less_arctan_iff)

lemma tick_robot:
  assumes "processed st dtMs"
  shows "robot (tick st dtMs u v rnd) =
     (if 28 < elapsed st + dtMs / 1000 then START else moved st (dtMs / 1000))"
  using assms by (simp add: tick_def processed_def Let_def reset_def)

lemma tick_elapsed:
  assumes "processed st dtMs"
  shows "elapsed (tick st dtMs u v rnd) =
     (if 28 < elapsed st + dtMs / 1000 then 0 else elapsed st + dtMs / 1000)"
  using assms by (simp add: tick_def processed_def Let_def reset_def)

lemma tick_senseTimer:
  assumes "processed st dtMs"
  shows "senseTimer (tick st dtMs u v rnd) =
     (if 28 < elapsed st + dtMs / 1000 \<or> shouldSense st (dtMs / 1000) then 0
      else senseTimer st + dtMs / 1000)"
  using assms by (simp add: tick_def processed_def Let_def reset_def)

lemma chooseTarget_unsure:
  assumes "simMode st = BIDIR" "\<bar>fst (belief st) - snd (belief st)\<bar> < 2 / 5"
  shows "fst (chooseTarget st dt) = VANTAGE"
  using assms by (simp add: chooseTarget_def Let_def CONF_THRESH_def)

lemma move_line:
  assumes "10 \<le> px" "px < 197.5" "0 \<le> dt" "px + 90 * dt \<le> 390"
  shows "move \<lparr>x = px, y = 150, theta = 0\<rparr> VANTAGE dt = \<lparr>x = px + 90 * dt, y = 150, theta = 0\<rparr>"
proof -
  have hy: "hypot (200 - px) 0 = 200 - px"
    using assms by (simp add: hypot_def)
  have at: "atan2 0 (200 - px) = 0"
    using assms by (simp add: atan2_def)
  have "10 \<le> px + 90 * dt"
    using assms by simp
  then show ?thesis
    using assms
    by (simp add: move_def Let_def VANTAGE_def hy at angleDiff_def clamp_def TURN_RATE_def
        SPEED_def WORLD_W_def WORLD_H_def)
qed

lemma move_hold:
  assumes "\<bar>200 - px\<bar> \<le> 2.5"
  shows "move \<lparr>x = px, y = 150, theta = 0\<rparr> VANTAGE dt = \<lparr>x = px, y = 150, theta = 0\<rparr>"
proof -
  have hy: "hypot (200 - px) 0 = \<bar>200 - px\<bar>"
    by (simp add: hypot_def)
  show ?thesis
    using assms by (simp add: move_def Let_def VANTAGE_def hy)
qed

lemma sense_line:
  fixes px dV rn :: real
  defines "sg \<equiv> clamp (0.045 + 0.15 * (dV / V_SENSE_RADIUS)) 0.045 0.20"
  defines "A \<equiv> arctan (90 / (320 - px))" and "B \<equiv> arctan (230 / (320 - px))"
  defines "n \<equiv> rn * sg"
  assumes px: "px < 320" and n: "- (pi / 2) \<le> n" "n \<le> 1"
  shows "sense \<lparr>x = px, y = 150, theta = 0\<rparr> b dV inV rn =
     (beliefUpdate b \<bar>n\<bar> \<bar>n + (B - A)\<bar> sg,
      \<lparr>meas = n - A, sigma = sg, pred1 = - A, pred2 = - B,
       err1 = \<bar>n\<bar>, err2 = \<bar>n + (B - A)\<bar>,
       winner = (if \<bar>n\<bar> \<le> \<bar>n + (B - A)\<bar> then ''H1 (Near L1)'' else ''H2 (Near L2)''),
       inVantage = inV\<rparr>)"
proof -
  have c: "0 < 320 - px" using px by simp
  have A: "0 < A" "A < pi / 2" unfolding A_def using c by (intro arctan_bounds_pos; simp)+
  have B: "0 < B" "B < pi / 2" unfolding B_def using c by (intro arctan_bounds_pos; simp)+
  have AB: "A < B" unfolding A_def B_def using c by (intro arctan_monotone divide_strict_right_mono) simp_all
  have pi2: "2 \<le> pi" by (rule pi_ge_two)
  have t1: "atan2 (60 - 150) (320 - px) = - A"
    using c by (simp add: atan2_def A_def arctan_minus)
  have t2: "atan2 (60 - 290) (320 - px) = - B"
    using c by (simp add: atan2_def B_def arctan_minus)
  have w1: "wrapPi (- A) = - A"
    using A pi2 by (intro wrapPi_id) linarith+
  have w2: "wrapPi (- B) = - B"
    using B pi2 by (intro wrapPi_id) linarith+
  have w3: "wrapPi (- A + rn * sg) = n - A"
    unfolding n_def [symmetric] using A pi2 n by (subst wrapPi_id) linarith+
  have w4: "wrapPi (n - A - - A) = n"
    using pi2 n by (subst wrapPi_id) linarith+
  have w5: "wrapPi (n - A - - B) = n + (B - A)"
    using A B AB pi2 n by (subst wrapPi_id) linarith+
  have gy: "clamp (150 + SHIFT_Y) 10 (WORLD_H - 10) = 290"
    by (simp add: clamp_def SHIFT_Y_def WORLD_H_def)
  show ?thesis
    unfolding sense_def Let_def
    apply (simp only: point.simps pose.simps landmark.simps BEACON_def gy sg_def [symmetric])
    apply (simp only: t1 t2 diff_zero w1 w2 w3 angleDiff_def w4 w5)
    done
qed

lemma line_view:
  assumes st: "onLine st px el tm b" and b: "\<bar>fst b - snd b\<bar> < 2 / 5"
    and px: "10 \<le> px" "px \<le> 200" "px' \<le> 200"
      "px' = (if 200 - px \<le> 2.5 then px else px + 90 * (dtMs / 1000))"
    and dt: "0 < dtMs" "dtMs \<le> 250"
  shows "processed st dtMs"
    and "moved st (dtMs / 1000) = \<lparr>x = px', y = 150, theta = 0\<rparr>"
    and "distV st (dtMs / 1000) = 200 - px'"
    and "shouldSense st (dtMs / 1000) = (tm + dtMs / 1000 \<ge> 0.35 \<and> 200 - px' \<le> 55)"
    and "measured st (dtMs / 1000) u v =
           sense \<lparr>x = px', y = 150, theta = 0\<rparr> b (200 - px') (200 - px' \<le> 55) (randn u v)"
proof -
  have f: "running st" "simMode st = BIDIR" "priorMode st = WEAK"
      "robot st = \<lparr>x = px, y = 150, theta = 0\<rparr>" "elapsed st = el" "senseTimer st = tm"
      "belief st = b"
    using st by (simp_all add: onLine_def)
  show pr: "processed st dtMs"
    using f(1) dt by (simp add: processed_def)
  have tg: "fst (chooseTarget st (dtMs / 1000)) = VANTAGE"
    using f(2,7) b by (intro chooseTarget_unsure) simp_all
  show mv: "moved st (dtMs / 1000) = \<lparr>x = px', y = 150, theta = 0\<rparr>"
  proof (cases "200 - px \<le> 2.5")
    case True
    then have "\<bar>200 - px\<bar> \<le> 2.5" using px(2) by simp
    from move_hold [OF this] True px(4) show ?thesis
      by (simp add: moved_def tg f(4))
  next
    case False
    then have a: "px < 197.5" by simp
    have c: "0 \<le> dtMs / 1000" using dt(1) by simp
    have d: "px + 90 * (dtMs / 1000) \<le> 390" using px(3,4) False by simp
    from move_line [OF px(1) a c d] False px(4) show ?thesis
      by (simp add: moved_def tg f(4))
  qed
  have "hypot (200 - px') 0 = 200 - px'"
    using px(3) by (simp add: hypot_def)
  then show dv: "distV st (dtMs / 1000) = 200 - px'"
    by (simp add: distV_def mv VANTAGE_def)
  show "shouldSense st (dtMs / 1000) = (tm + dtMs / 1000 \<ge> 0.35 \<and> 200 - px' \<le> 55)"
    using f(2,6) by (auto simp: shouldSense_def dv V_SENSE_RADIUS_def SENSE_PERIOD_def)
  show "measured st (dtMs / 1000) u v =
           sense \<lparr>x = px', y = 150, theta = 0\<rparr> b (200 - px') (200 - px' \<le> 55) (randn u v)"
    by (simp add: measured_def mv dv f(7) V_SENSE_RADIUS_def)
qed

lemma fst_sense_flag: "fst (sense r b dV inV rn) = fst (sense r b dV inV' rn)"
  by (simp add: sense_def Let_def)

lemma line_tick:
  assumes st: "onLine st px el tm b" and b: "\<bar>fst b - snd b\<bar> < 2 / 5"
    and px: "10 \<le> px" "px \<le> 200" "px' \<le> 200"
      "px' = (if 200 - px \<le> 2.5 then px else px + 90 * (dtMs / 1000))"
    and dt: "0 < dtMs" "dtMs \<le> 250" "el + dtMs / 1000 \<le> 28"
  shows "onLine (tick st dtMs u v r) px' (el + dtMs / 1000)
           (if tm + dtMs / 1000 \<ge> 0.35 \<and> 200 - px' \<le> 55 then 0 else tm + dtMs / 1000)
           (if tm + dtMs / 1000 \<ge> 0.35 \<and> 200 - px' \<le> 55
            then fst (sense \<lparr>x = px', y = 150, theta = 0\<rparr> b (200 - px') True (randn u v))
            else b)"
proof -
  have f: "running st" "simMode st = BIDIR" "priorMode st = WEAK"
      "robot st = \<lparr>x = px, y = 150, theta = 0\<rparr>" "elapsed st = el" "senseTimer st = tm"
      "belief st = b"
    using st by (simp_all add: onLine_def)
  note v = line_view [OF st b px dt(1,2)]
  have el: "\<not> 28 < elapsed st + dtMs / 1000"
    using dt(3) f(5) by simp
  have ms: "fst (measured st (dtMs / 1000) u v) =
      fst (sense \<lparr>x = px', y = 150, theta = 0\<rparr> b (200 - px') True (randn u v))"
    unfolding v(5) by (rule fst_sense_flag)
  show ?thesis
    unfolding onLine_def
    using el f v(4)
    by (simp add: tick_running [OF v(1)] tick_modes tick_robot [OF v(1)] tick_elapsed [OF v(1)]
        tick_senseTimer [OF v(1)] tick_belief [OF v(1)] v(2) ms)
qed

lemma beliefUpdate_skip:
  "preSum b e1 e2 sg \<le> 1 / 10 ^ 9 \<Longrightarrow> beliefUpdate b e1 e2 sg = b"
  by (simp add: preSum_def beliefUpdate_def Let_def)

lemma sense_belief:
  "fst (sense r b dV inV rn) =
     beliefUpdate b (err1 (snd (sense r b dV inV rn))) (err2 (snd (sense r b dV inV rn)))
       (sigma (snd (sense r b dV inV rn)))"
  by (simp add: sense_def Let_def)

lemma preSum_noise78:
  assumes b: "validBelief b" and d: "0 \<le> d" and sg: "0 < sg"
  shows "preSum b (39 / 5 * sg) (39 / 5 * sg + d) sg < 1 / 10 ^ 9"
proof -
  define lh1 :: real where "lh1 = exp (- 0.5 * ((39 / 5 * sg) / sg) * ((39 / 5 * sg) / sg))"
  define lh2 :: real where "lh2 = exp (- 0.5 * ((39 / 5 * sg + d) / sg) * ((39 / 5 * sg + d) / sg))"
  have w: "0 \<le> fst b" "0 \<le> snd b" "fst b + snd b = 1"
    using b by (simp_all add: validBelief_def)
  have q0: "0 \<le> (39 / 5 * sg) / sg"
    using sg by simp
  have "39 / 5 * sg \<le> 39 / 5 * sg + d"
    using d by simp
  then have q1: "(39 / 5 * sg) / sg \<le> (39 / 5 * sg + d) / sg"
    using sg by (intro divide_right_mono) simp_all
  note q = q0 q1
  have "((39 / 5 * sg) / sg) * ((39 / 5 * sg) / sg)
      \<le> ((39 / 5 * sg + d) / sg) * ((39 / 5 * sg + d) / sg)"
    using q by (intro mult_mono) simp_all
  then have "lh2 \<le> lh1"
    by (simp add: lh1_def lh2_def)
  then have pw: "lh2 powr 0.70 \<le> lh1 powr 0.70"
    by (intro powr_mono2) (simp_all add: lh2_def)
  have "(39 / 5 * sg) / sg = 39 / 5"
    using sg by simp
  then have "lh1 = exp (- 0.5 * (39 / 5) * (39 / 5))"
    unfolding lh1_def by (simp only:)
  then have "lh1 = exp (- (1521 / 50))"
    by simp
  then have "lh1 powr 0.70 = exp (- (10647 / 500))"
    by (simp add: powr_def)
  also have "\<dots> < exp (- 21)"
    by simp
  also have "\<dots> \<le> 1 / 10 ^ 9"
  proof -
    have "exp (- 21 :: real) = 1 / exp 21" by (simp add: exp_minus divide_inverse)
    also have "\<dots> \<le> 1 / 10 ^ 9"
      using exp_21 by (intro divide_left_mono) simp_all
    finally show ?thesis .
  qed
  finally have small: "lh1 powr 0.70 < 1 / 10 ^ 9" .
  have "preSum b (39 / 5 * sg) (39 / 5 * sg + d) sg = fst b * lh1 powr 0.70 + snd b * lh2 powr 0.70"
    by (simp add: preSum_def Let_def lh1_def lh2_def)
  also have "\<dots> \<le> fst b * lh1 powr 0.70 + snd b * lh1 powr 0.70"
    using pw w(2) by (simp add: mult_left_mono)
  also have "\<dots> = lh1 powr 0.70"
    using w(3) by (simp add: distrib_right [symmetric])
  finally show ?thesis using small by simp
qed

lemma sense_noise78:
  fixes px dV :: real
  assumes px: "px < 320" and dV: "0 \<le> dV" "dV \<le> 30" and b: "validBelief b"
  shows "preSum b (err1 (snd (sense \<lparr>x = px, y = 150, theta = 0\<rparr> b dV inV (39 / 5))))
           (err2 (snd (sense \<lparr>x = px, y = 150, theta = 0\<rparr> b dV inV (39 / 5))))
           (sigma (snd (sense \<lparr>x = px, y = 150, theta = 0\<rparr> b dV inV (39 / 5)))) < 1 / 10 ^ 9"
    and "fst (sense \<lparr>x = px, y = 150, theta = 0\<rparr> b dV inV (39 / 5)) = b"
proof -
  define sg where "sg = clamp (0.045 + 0.15 * (dV / V_SENSE_RADIUS)) 0.045 0.20"
  define d where "d = arctan (230 / (320 - px)) - arctan (90 / (320 - px))"
  have sg: "0 < sg" "39 / 5 * sg \<le> 1"
    using dV by (simp_all add: sg_def clamp_def V_SENSE_RADIUS_def)
  have d: "0 \<le> d"
    unfolding d_def using px by (simp add: arctan_le_iff divide_right_mono)
  have n: "- (pi / 2) \<le> 39 / 5 * sg" "39 / 5 * sg \<le> 1"
    using sg pi_ge_two by simp_all
  note s = sense_line [OF px n [unfolded sg_def], of b inV, folded sg_def d_def]
  have a: "\<bar>39 / 5 * sg\<bar> = 39 / 5 * sg" "\<bar>39 / 5 * sg + d\<bar> = 39 / 5 * sg + d"
    using sg d by simp_all
  have e: "err1 (snd (sense \<lparr>x = px, y = 150, theta = 0\<rparr> b dV inV (39 / 5))) = 39 / 5 * sg"
      "err2 (snd (sense \<lparr>x = px, y = 150, theta = 0\<rparr> b dV inV (39 / 5))) = 39 / 5 * sg + d"
      "sigma (snd (sense \<lparr>x = px, y = 150, theta = 0\<rparr> b dV inV (39 / 5))) = sg"
    unfolding s using a by simp_all
  show "preSum b (err1 (snd (sense \<lparr>x = px, y = 150, theta = 0\<rparr> b dV inV (39 / 5))))
           (err2 (snd (sense \<lparr>x = px, y = 150, theta = 0\<rparr> b dV inV (39 / 5))))
           (sigma (snd (sense \<lparr>x = px, y = 150, theta = 0\<rparr> b dV inV (39 / 5)))) < 1 / 10 ^ 9"
    unfolding e by (rule preSum_noise78 [OF b d sg(1)])
  then show "fst (sense \<lparr>x = px, y = 150, theta = 0\<rparr> b dV inV (39 / 5)) = b"
    by (subst sense_belief) (simp add: beliefUpdate_skip)
qed

lemma gap_bounds:
  "0 < arctan (23 / 17 :: real) - arctan (9 / 17)" "arctan (23 / 17 :: real) - arctan (9 / 17) < 2"
proof -
  have a: "0 < arctan (9 / 17 :: real)" by (simp add: zero_less_arctan_iff)
  have b: "arctan (23 / 17 :: real) < pi / 2" by (rule arctan_ubound)
  have c: "arctan (9 / 17 :: real) < arctan (23 / 17)" by (rule arctan_monotone) simp
  have p: "pi < 4" by (rule pi_less_4)
  show "0 < arctan (23 / 17 :: real) - arctan (9 / 17)" using c by simp
  show "arctan (23 / 17 :: real) - arctan (9 / 17) < 2" using a b p by linarith
qed

lemma midNoise_bounds: "- (101 / 100) < midNoise" "midNoise < - (1 / 100)" "- (pi / 2) \<le> midNoise"
proof -
  define D :: real where "D = arctan (23 / 17) - arctan (9 / 17)"
  have a: "0 < arctan (9 / 17 :: real)" by (simp add: zero_less_arctan_iff)
  have b: "arctan (23 / 17 :: real) < pi / 2" by (rule arctan_ubound)
  have c: "arctan (9 / 17 :: real) < arctan (23 / 17)" by (rule arctan_monotone) simp
  have p: "pi < 4" "2 \<le> pi" by (rule pi_less_4, rule pi_ge_two)
  have d: "0 < D" "D < pi / 2"
    unfolding D_def using a b c by linarith+
  have m: "midNoise = - (D / 2 + 1 / 100)"
    by (simp add: midNoise_def D_def)
  show "- (101 / 100) < midNoise"
    unfolding m using d p by linarith
  show "midNoise < - (1 / 100)"
    unfolding m using d p by linarith
  show "- (pi / 2) \<le> midNoise"
    unfolding m using d p by linarith
qed

lemma randn_mild: "randn mildU (1/2) = midNoise * (2200 / 399)"
proof -
  have neg: "midNoise * (2200 / 399) < 0"
    using midNoise_bounds(2) by (simp add: mult_less_0_iff)
  have "sqrt (- 2 * ln mildU) = sqrt ((midNoise * (2200 / 399))\<^sup>2)"
    by (simp add: mildU_def)
  also have "\<dots> = - (midNoise * (2200 / 399))"
    using neg by simp
  finally show ?thesis
    by (simp add: randn_def)
qed

lemma exp_11: "exp (11 :: real) \<le> 3 ^ 11"
proof -
  have "exp (1 :: real) \<le> 1 + 1 + 1\<^sup>2"
    by (rule exp_bound) simp_all
  then have "exp (1 :: real) \<le> 3" by simp
  then have "exp (1 :: real) ^ 11 \<le> 3 ^ 11"
    by (intro power_mono) simp_all
  then show ?thesis
    by (simp add: exp_of_nat_mult [symmetric])
qed

lemma tempered: "exp (- 0.5 * q * q) powr 0.70 = exp (- (7 / 20) * (q * q))" for q :: real
  by (simp add: powr_def)

lemma mildBelief_facts:
  shows "validBelief mildBelief" and "\<bar>fst mildBelief - snd mildBelief\<bar> < 2 / 5"
    and "fst mildBelief < 1 / 2"
proof -
  define D :: real where "D = arctan (23 / 17) - arctan (9 / 17)"
  define sg :: real where "sg = 399 / 2200"
  define e1 where "e1 = \<bar>midNoise\<bar>"
  define e2 where "e2 = \<bar>midNoise + D\<bar>"
  define a where "a = exp (- (7 / 20) * ((e1 / sg) * (e1 / sg)))"
  define b where "b = exp (- (7 / 20) * ((e2 / sg) * (e2 / sg)))"
  define K where "K = D * (33880 / 159201)"
  have D: "0 < D" "D < 2"
    using gap_bounds by (simp_all add: D_def)
  have m: "midNoise = - (D / 2 + 1 / 100)"
    by (simp add: midNoise_def D_def)
  have "validBelief (1/2 :: real, 1/2 :: real)"
    by (simp add: validBelief_def)
  then show v: "validBelief mildBelief"
    unfolding mildBelief_def by (rule sense_valid)
  have sgv: "clamp (0.045 + 0.15 * (50 / V_SENSE_RADIUS)) 0.045 0.20 = sg"
    by (simp add: clamp_def V_SENSE_RADIUS_def sg_def)
  have n: "midNoise * (2200 / 399) * sg = midNoise"
    by (simp add: sg_def)
  have px: "(150 :: real) < 320" by simp
  have AB: "arctan (230 / (320 - 150)) - arctan (90 / (320 - 150)) = D"
    by (simp add: D_def)
  have "mildBelief = fst (sense \<lparr>x = 150, y = 150, theta = 0\<rparr> (1/2, 1/2) 50 True (midNoise * (2200 / 399)))"
    by (simp add: mildBelief_def randn_mild)
  also have "\<dots> = beliefUpdate (1/2, 1/2) e1 e2 sg"
  proof -
    have lo: "- (pi / 2) \<le> midNoise" and hi: "midNoise \<le> 1"
      using midNoise_bounds by simp_all
    note s = sense_line [OF px, of "midNoise * (2200 / 399)" 50 "(1/2, 1/2)" True, unfolded sgv n AB, OF lo hi]
    show ?thesis
      unfolding s e1_def e2_def by simp
  qed
  finally have mb: "mildBelief = beliefUpdate (1/2, 1/2) e1 e2 sg" .
  have sq: "e1 * e1 - e2 * e2 = D / 50"
    unfolding e1_def e2_def m by (simp add: algebra_simps abs_mult_self_eq [simplified])
  have "(e1 / sg) * (e1 / sg) - (e2 / sg) * (e2 / sg) = (e1 * e1 - e2 * e2) / (sg * sg)"
    by (simp add: diff_divide_distrib)
  also have "\<dots> = D / 50 * (4840000 / 159201)"
    unfolding sq by (simp add: sg_def)
  finally have Qv: "(e1 / sg) * (e1 / sg) - (e2 / sg) * (e2 / sg) = D / 50 * (4840000 / 159201)" .
  have "(7 / 20) * ((e1 / sg) * (e1 / sg)) - (7 / 20) * ((e2 / sg) * (e2 / sg))
      = (7 / 20) * ((e1 / sg) * (e1 / sg) - (e2 / sg) * (e2 / sg))"
    by (simp only: right_diff_distrib)
  also have "\<dots> = K"
    unfolding Qv K_def by simp
  finally have dq: "(7 / 20) * ((e1 / sg) * (e1 / sg)) - (7 / 20) * ((e2 / sg) * (e2 / sg)) = K" .
  have ba: "b = a * exp K"
    unfolding a_def b_def dq [symmetric] by (simp add: exp_add [symmetric] algebra_simps)
  have K: "0 < K" "K < 43 / 100"
    using D by (simp_all add: K_def)
  have "exp K \<le> 1 + K + K\<^sup>2"
    using K by (intro exp_bound) simp_all
  also have "K\<^sup>2 \<le> (43 / 100)\<^sup>2"
    using K by (intro power_mono) simp_all
  finally have eK: "exp K < 7 / 3"
    using K(2) by (simp add: power2_eq_square)
  have eK1: "1 < exp K"
    using K(1) by simp
  have "e1 < 101 / 100"
    unfolding e1_def using midNoise_bounds(1,2) by simp
  moreover have "0 \<le> e1" by (simp add: e1_def)
  ultimately have "e1 / sg * (e1 / sg) \<le> (101 / 100) / sg * ((101 / 100) / sg)"
    by (intro mult_mono divide_right_mono) (simp_all add: sg_def)
  also have "\<dots> \<le> 220 / 7"
    by (simp add: sg_def)
  finally have x1: "e1 / sg * (e1 / sg) \<le> 220 / 7" .
  define X1 where "X1 = e1 / sg * (e1 / sg)"
  have "- 11 \<le> - (7 / 20) * X1"
    using x1 unfolding X1_def [symmetric] by linarith
  then have "exp (- 11) \<le> a"
    unfolding a_def X1_def by (simp only: exp_le_cancel_iff)
  moreover have "1 / 3 ^ 11 \<le> exp (- 11 :: real)"
  proof -
    have "exp (- 11 :: real) = 1 / exp 11" by (simp add: exp_minus divide_inverse)
    moreover have "1 / 3 ^ 11 \<le> 1 / exp (11 :: real)"
      using exp_11 by (intro divide_left_mono) simp_all
    ultimately show ?thesis by simp
  qed
  ultimately have alow: "1 / 3 ^ 11 \<le> a"
    by linarith
  have apos: "0 < a" by (simp add: a_def)
  have bpos: "0 < b" by (simp add: b_def)
  have big: "1 / 10 ^ 9 < 1 / 2 * a + 1 / 2 * b"
    using alow bpos by simp
  have upd: "beliefUpdate (1/2, 1/2) e1 e2 sg =
      (1 / 2 * a / (1 / 2 * a + 1 / 2 * b), 1 / 2 * b / (1 / 2 * a + 1 / 2 * b))"
    unfolding beliefUpdate_def Let_def tempered fst_conv snd_conv a_def [symmetric] b_def [symmetric]
    using big by simp
  define E where "E = exp K"
  have E: "1 < E" "E < 7 / 3"
    using eK1 eK by (simp_all only: E_def)
  have pos: "0 < 1 + E" using E by linarith
  have bE: "b = a * E" by (simp add: ba E_def)
  have fac: "1 / 2 * a + 1 / 2 * b = 1 / 2 * a * (1 + E)"
    by (simp add: bE algebra_simps)
  have f1: "fst mildBelief = 1 / (1 + E)"
    unfolding mb upd fst_conv fac using apos by simp
  have "1 / 2 * b = 1 / 2 * a * E"
    by (simp add: bE)
  then have f2: "snd mildBelief = E / (1 + E)"
    unfolding mb upd snd_conv fac using apos by simp
  have "fst mildBelief - snd mildBelief = - ((E - 1) / (1 + E))"
    by (simp add: f1 f2 diff_divide_distrib [symmetric] minus_divide_left)
  moreover have "0 < (E - 1) / (1 + E)"
    using E pos by simp
  ultimately have "\<bar>fst mildBelief - snd mildBelief\<bar> = (E - 1) / (1 + E)"
    by (simp only: abs_minus_cancel abs_of_pos)
  also have "\<dots> < 2 / 5"
    using E pos by (simp add: field_simps)
  finally show "\<bar>fst mildBelief - snd mildBelief\<bar> < 2 / 5" .
  show "fst mildBelief < 1 / 2"
    using E pos by (simp add: f1 field_simps)
qed


lemma line_tick_sense:
  assumes "onLine st px el tm b" "\<bar>fst b - snd b\<bar> < 2 / 5"
    and "10 \<le> px" "px \<le> 200" "px' \<le> 200"
      "px' = (if 200 - px \<le> 2.5 then px else px + 90 * (dtMs / 1000))"
    and "0 < dtMs" "dtMs \<le> 250" "el' = el + dtMs / 1000" "el' \<le> 28"
    and "tm + dtMs / 1000 \<ge> 0.35" "200 - px' \<le> 55"
    and "b' = fst (sense \<lparr>x = px', y = 150, theta = 0\<rparr> b (200 - px') True (randn u v))"
  shows "onLine (tick st dtMs u v r) px' el' 0 b'"
proof -
  have "el + dtMs / 1000 \<le> 28" using assms(9,10) by simp
  from line_tick [OF assms(1-8) this, of u v r] assms(9,11,12,13) show ?thesis
    by (simp only: if_True simp_thms)
qed

lemma line_tick_skip:
  assumes "onLine st px el tm b" "\<bar>fst b - snd b\<bar> < 2 / 5"
    and "10 \<le> px" "px \<le> 200" "px' \<le> 200"
      "px' = (if 200 - px \<le> 2.5 then px else px + 90 * (dtMs / 1000))"
    and "0 < dtMs" "dtMs \<le> 250" "el' = el + dtMs / 1000" "el' \<le> 28"
    and "tm' = tm + dtMs / 1000" "\<not> (tm' \<ge> 0.35 \<and> 200 - px' \<le> 55)"
  shows "onLine (tick st dtMs u v r) px' el' tm' b"
proof -
  have "el + dtMs / 1000 \<le> 28" using assms(9,10) by simp
  from line_tick [OF assms(1-8) this, of u v r] assms(9,11,12) show ?thesis
    by (simp only: if_False simp_thms)
qed

text \<open>
  Claim C7, as the code has it. On a processed frame that senses with a pre-normalisation
  sum of at most \<open>1e-9\<close>, the update is skipped: the sense event returns the belief it
  was given, and the simulation goes on. After the frame the belief is the one before it,
  unless the frame also passes the 28 s auto-loop limit: then the panel is reset, the
  belief is the prior's and the simulation is paused.
\<close>

theorem degenerate_sum_tick:
  assumes "processed st dtMs" "shouldSense st (dtMs / 1000)"
    and "preSum (belief st) (err1 (snd (measured st (dtMs / 1000) u v)))
           (err2 (snd (measured st (dtMs / 1000) u v)))
           (sigma (snd (measured st (dtMs / 1000) u v))) \<le> 1 / 10 ^ 9"
  shows "fst (measured st (dtMs / 1000) u v) = belief st
       \<and> belief (tick st dtMs u v rnd) =
           (if 28 < elapsed st + dtMs / 1000 then computeInitialBelief (priorMode st) else belief st)
       \<and> running (tick st dtMs u v rnd) = (\<not> 28 < elapsed st + dtMs / 1000)"
proof -
  have "fst (measured st (dtMs / 1000) u v) = belief st"
    unfolding measured_def using assms(3) [unfolded measured_def]
    by (subst sense_belief) (rule beliefUpdate_skip)
  then show ?thesis
    using assms(1,2) by (simp add: tick_belief tick_running)
qed

lemma runEvents_append: "runEvents st (es @ fs) = runEvents (runEvents st es) fs"
  by (simp add: runEvents_def)

lemma hold_noise78:
  assumes "validBelief b" "0 \<le> 200 - px" "200 - px \<le> 30"
  shows "fst (sense \<lparr>x = px, y = 150, theta = 0\<rparr> b (200 - px) True (randn degenerateU degenerateV)) = b"
  unfolding randn_degenerate
  using assms by (intro sense_noise78(2)) simp_all

lemma approach_states:
  defines "tkD \<equiv> Tick 250 degenerateU degenerateV (1/2)"
  shows "onLine nearVantage 172.5 1.25 0.25 mildBelief"
    and "onLine (runEvents nearVantage [tkD, Tick 50 degenerateU degenerateV (1/2)])
           199.5 1.55 0.05 mildBelief"
proof -
  define s0 where "s0 = start (mounted (1/2))"
  define s1 where "s1 = tick s0 250 degenerateU degenerateV (1/2)"
  define s2 where "s2 = tick s1 250 degenerateU degenerateV (1/2)"
  define s3 where "s3 = tick s2 250 degenerateU degenerateV (1/2)"
  define s4 where "s4 = tick s3 250 mildU (1/2) (1/2)"
  define s5 where "s5 = tick s4 250 degenerateU degenerateV (1/2)"
  define s6 where "s6 = tick s5 250 degenerateU degenerateV (1/2)"
  define s7 where "s7 = tick s6 50 degenerateU degenerateV (1/2)"
  have u0: "\<bar>fst (1/2 :: real, 1/2 :: real) - snd (1/2 :: real, 1/2 :: real)\<bar> < 2 / 5"
    by simp
  note um = mildBelief_facts(2)
  note vm = mildBelief_facts(1)
  have o0: "onLine s0 60 0 0 (1/2, 1/2)"
    by (simp add: onLine_def s0_def start_def mounted_def reset_def initial_def
        computeInitialBelief_def START_def)
  have o1: "onLine s1 82.5 0.25 0.25 (1/2, 1/2)"
    unfolding s1_def by (rule line_tick_skip [OF o0 u0]) simp_all
  have o2: "onLine s2 105 0.5 0.5 (1/2, 1/2)"
    unfolding s2_def by (rule line_tick_skip [OF o1 u0]) simp_all
  have o3: "onLine s3 127.5 0.75 0.75 (1/2, 1/2)"
    unfolding s3_def by (rule line_tick_skip [OF o2 u0]) simp_all
  have o4: "onLine s4 150 1 0 mildBelief"
    unfolding s4_def by (rule line_tick_sense [OF o3 u0]) (simp_all add: mildBelief_def)
  have o5: "onLine s5 172.5 1.25 0.25 mildBelief"
    unfolding s5_def by (rule line_tick_skip [OF o4 um]) simp_all
  have h6: "mildBelief = fst (sense \<lparr>x = 195, y = 150, theta = 0\<rparr> mildBelief (200 - 195) True
              (randn degenerateU degenerateV))"
    by (rule hold_noise78 [OF vm, symmetric]) simp_all
  have o6: "onLine s6 195 1.5 0 mildBelief"
    unfolding s6_def by (rule line_tick_sense [OF o5 um _ _ _ _ _ _ _ _ _ _ h6]) simp_all
  have o7: "onLine s7 199.5 1.55 0.05 mildBelief"
    unfolding s7_def by (rule line_tick_skip [OF o6 um]) simp_all
  have nv: "nearVantage = s5"
    by (simp add: nearVantage_def nearRun_def runEvents_def s0_def s1_def s2_def s3_def s4_def s5_def)
  show "onLine nearVantage 172.5 1.25 0.25 mildBelief"
    using o5 by (simp only: nv)
  show "onLine (runEvents nearVantage [tkD, Tick 50 degenerateU degenerateV (1/2)])
           199.5 1.55 0.05 mildBelief"
    using o7 by (simp add: nv runEvents_def tkD_def s6_def s7_def)
qed


lemma hold_pair:
  assumes o: "onLine st 199.5 el tm mildBelief" and el: "el + 1 / 2 \<le> 28"
    and tm: "0 \<le> tm" "tm < 1 / 10"
  shows "onLine (runEvents st [Tick 250 degenerateU degenerateV (1/2), Tick 250 degenerateU degenerateV (1/2)])
           199.5 (el + 1 / 2) 0 mildBelief"
proof -
  note um = mildBelief_facts(2)
  note vm = mildBelief_facts(1)
  have a: "onLine (tick st 250 degenerateU degenerateV (1/2)) 199.5 (el + 1 / 4) (tm + 1 / 4) mildBelief"
    using el tm by (intro line_tick_skip [OF o um]) simp_all
  have h: "mildBelief = fst (sense \<lparr>x = 199.5, y = 150, theta = 0\<rparr> mildBelief (200 - 199.5) True
              (randn degenerateU degenerateV))"
    by (rule hold_noise78 [OF vm, symmetric]) simp_all
  have "onLine (tick (tick st 250 degenerateU degenerateV (1/2)) 250 degenerateU degenerateV (1/2))
           199.5 (el + 1 / 2) 0 mildBelief"
    using el tm by (intro line_tick_sense [OF a um _ _ _ _ _ _ _ _ _ _ h]) simp_all
  then show ?thesis
    by (simp add: runEvents_def)
qed

lemma hold_pairs:
  "onLine st 199.5 el 0 mildBelief \<Longrightarrow> el + real n / 2 \<le> 28 \<Longrightarrow>
   onLine (runEvents st (replicate (2 * n) (Tick 250 degenerateU degenerateV (1/2))))
     199.5 (el + real n / 2) 0 mildBelief"
proof (induction n arbitrary: st el)
  case 0
  then show ?case by (simp add: runEvents_def)
next
  case (Suc n)
  let ?t = "Tick 250 degenerateU degenerateV (1/2)"
  have sn: "real (Suc n) / 2 = 1 / 2 + real n / 2"
    by (simp add: add_divide_distrib)
  have el: "el + 1 / 2 \<le> 28" using Suc.prems(2) unfolding sn by linarith
  have rest: "el + 1 / 2 + real n / 2 \<le> 28" using Suc.prems(2) unfolding sn by linarith
  have z: "(0 :: real) \<le> 0" "(0 :: real) < 1 / 10" by simp_all
  have "replicate (2 * Suc n) ?t = [?t, ?t] @ replicate (2 * n) ?t"
    by simp
  then have "runEvents st (replicate (2 * Suc n) ?t) =
      runEvents (runEvents st [?t, ?t]) (replicate (2 * n) ?t)"
    by (simp only: runEvents_append)
  also note Suc.IH [OF hold_pair [OF Suc.prems(1) el z] rest]
  finally show ?case
    unfolding sn by (simp only: add.assoc)
qed


lemma latePanel_state: "onLine latePanel 199.5 27.8 0.25 mildBelief"
proof -
  let ?t = "Tick 250 degenerateU degenerateV (1/2)"
  define s7 where "s7 = runEvents nearVantage [?t, Tick 50 degenerateU degenerateV (1/2)]"
  define s9 where "s9 = runEvents s7 [?t, ?t]"
  define s111 where "s111 = runEvents s9 (replicate (2 * 51) ?t)"
  note um = mildBelief_facts(2)
  have o7: "onLine s7 199.5 1.55 0.05 mildBelief"
    unfolding s7_def by (rule approach_states(2))
  have "onLine s9 199.5 (1.55 + 1 / 2) 0 mildBelief"
    unfolding s9_def by (rule hold_pair [OF o7]) simp_all
  then have o9: "onLine s9 199.5 2.05 0 mildBelief"
    by simp
  have "onLine s111 199.5 (2.05 + real 51 / 2) 0 mildBelief"
    unfolding s111_def by (rule hold_pairs [OF o9]) simp
  then have o111: "onLine s111 199.5 27.55 0 mildBelief"
    by simp
  have o112: "onLine (tick s111 250 degenerateU degenerateV (1/2)) 199.5 27.8 0.25 mildBelief"
    by (rule line_tick_skip [OF o111 um]) simp_all
  have "replicate 105 ?t = [?t, ?t] @ replicate (2 * 51) ?t @ [?t]"
    by (simp add: replicate_append_same numeral_eq_Suc)
  then have "latePanel = tick s111 250 degenerateU degenerateV (1/2)"
    unfolding latePanel_def lateRun_def nearVantage_def s7_def s9_def s111_def
    by (simp only: runEvents_append) (simp add: runEvents_def)
  with o112 show ?thesis by simp
qed


lemma noise78_view:
  assumes o: "onLine st px el tm mildBelief"
    and px: "10 \<le> px" "px \<le> 200" "px' \<le> 200" "170 \<le> px'"
      "px' = (if 200 - px \<le> 2.5 then px else px + 90 * (250 / 1000))"
    and tm: "tm + 250 / 1000 \<ge> 0.35"
  shows "processed st 250" and "shouldSense st (250 / 1000)"
    and "preSum (belief st)
           (err1 (snd (measured st (250 / 1000) degenerateU degenerateV)))
           (err2 (snd (measured st (250 / 1000) degenerateU degenerateV)))
           (sigma (snd (measured st (250 / 1000) degenerateU degenerateV))) < 1 / 10 ^ 9"
proof -
  have d: "(0 :: real) < 250" "(250 :: real) \<le> 250" by simp_all
  note v = line_view [OF o mildBelief_facts(2) px(1,2,3,5) d]
  show "processed st 250" by (rule v(1))
  show "shouldSense st (250 / 1000)"
    unfolding v(4) using tm px(4) by simp
  have b: "belief st = mildBelief"
    using o by (simp add: onLine_def)
  have "px' < 320" "0 \<le> 200 - px'" "200 - px' \<le> 30"
    using px(3,4) by simp_all
  from sense_noise78(1) [OF this mildBelief_facts(1)]
  show "preSum (belief st)
           (err1 (snd (measured st (250 / 1000) degenerateU degenerateV)))
           (err2 (snd (measured st (250 / 1000) degenerateU degenerateV)))
           (sigma (snd (measured st (250 / 1000) degenerateU degenerateV))) < 1 / 10 ^ 9"
    unfolding v(5) b randn_degenerate .
qed

theorem degenerate_sum_tick_witness:
  "belief nearVantage = mildBelief
   \<and> fst (measured nearVantage (250 / 1000) degenerateU degenerateV) = mildBelief
   \<and> belief (tick nearVantage 250 degenerateU degenerateV (1/2)) = mildBelief
   \<and> running (tick nearVantage 250 degenerateU degenerateV (1/2))"
proof -
  note o = approach_states(1)
  have f: "belief nearVantage = mildBelief" "elapsed nearVantage = 1.25" "priorMode nearVantage = WEAK"
    using o by (simp_all add: onLine_def)
  note v = noise78_view [OF o, where px' = "195"]
  have pr: "processed nearVantage 250" by (rule v(1)) simp_all
  have ss: "shouldSense nearVantage (250 / 1000)" by (rule v(2)) simp_all
  have "preSum (belief nearVantage)
           (err1 (snd (measured nearVantage (250 / 1000) degenerateU degenerateV)))
           (err2 (snd (measured nearVantage (250 / 1000) degenerateU degenerateV)))
           (sigma (snd (measured nearVantage (250 / 1000) degenerateU degenerateV))) < 1 / 10 ^ 9"
    by (rule v(3)) simp_all
  then have small: "preSum (belief nearVantage)
           (err1 (snd (measured nearVantage (250 / 1000) degenerateU degenerateV)))
           (err2 (snd (measured nearVantage (250 / 1000) degenerateU degenerateV)))
           (sigma (snd (measured nearVantage (250 / 1000) degenerateU degenerateV))) \<le> 1 / 10 ^ 9"
    by simp
  from degenerate_sum_tick [OF pr ss small, of "1/2"] f show ?thesis
    by simp
qed


text \<open>
  The run \<open>lateRun\<close> leaves the panel 27.8 s into the run with the belief of the mild
  sense event, in which \<open>w1\<close> is below \<open>1/2\<close>. The next frame of 250 ms senses with a sum
  below \<open>1e-9\<close>, so its update is skipped, and it passes the 28 s limit: after the frame
  the belief is \<open>(0.5, 0.5)\<close> and the simulation is paused.
\<close>

theorem degenerate_sum_reset_counterexample:
  "processed latePanel 250 \<and> shouldSense latePanel (250 / 1000)
   \<and> preSum (belief latePanel)
       (err1 (snd (measured latePanel (250 / 1000) degenerateU degenerateV)))
       (err2 (snd (measured latePanel (250 / 1000) degenerateU degenerateV)))
       (sigma (snd (measured latePanel (250 / 1000) degenerateU degenerateV))) < 1 / 10 ^ 9
   \<and> fst (belief latePanel) < 1 / 2
   \<and> belief (tick latePanel 250 degenerateU degenerateV (1/2)) = (1/2, 1/2)
   \<and> \<not> running (tick latePanel 250 degenerateU degenerateV (1/2))"
proof -
  note o = latePanel_state
  have f: "belief latePanel = mildBelief" "elapsed latePanel = 27.8" "priorMode latePanel = WEAK"
    using o by (simp_all add: onLine_def)
  note v = noise78_view [OF o, where px' = "199.5"]
  have pr: "processed latePanel 250" by (rule v(1)) simp_all
  have ss: "shouldSense latePanel (250 / 1000)" by (rule v(2)) simp_all
  have small: "preSum (belief latePanel)
       (err1 (snd (measured latePanel (250 / 1000) degenerateU degenerateV)))
       (err2 (snd (measured latePanel (250 / 1000) degenerateU degenerateV)))
       (sigma (snd (measured latePanel (250 / 1000) degenerateU degenerateV))) < 1 / 10 ^ 9"
    by (rule v(3)) simp_all
  have b: "belief (tick latePanel 250 degenerateU degenerateV (1/2)) = (1/2, 1/2)"
    by (simp add: tick_belief [OF pr] f computeInitialBelief_def)
  have r: "\<not> running (tick latePanel 250 degenerateU degenerateV (1/2))"
    by (simp add: tick_running [OF pr] f)
  from pr ss small b r mildBelief_facts(3) show ?thesis
    by (simp only: f simp_thms)
qed



section \<open>Pathfinder: termination and shortest routes\<close>

lemma jsnum_less_simps [simp]:
  "Num a < Num b \<longleftrightarrow> a < b" "Num a < Infinity" "\<not> Infinity < c"
  by (cases c; auto simp: less_jsnum_def)+

lemma jsnum_Infinity_le [simp]: "Infinity \<le> c \<longleftrightarrow> c = Infinity"
  by (cases c) simp_all

lemma jsnum_finite: "c \<noteq> Infinity \<longleftrightarrow> (\<exists>r. c = Num r)"
  by (cases c) simp_all

lemma jsnum_less_finite: "a < b \<Longrightarrow> \<exists>r. a = Num r"
  by (cases a) simp_all

lemma hypot_nonneg [simp]: "0 \<le> hypot a b"
  by (simp add: hypot_def)

lemma edgeLen_nonneg [simp]: "0 \<le> edgeLen nodes u v"
  by (simp add: edgeLen_def split: option.splits)

lemma cost_nonneg [simp]: "0 \<le> cost nodes p"
  by (induction nodes p rule: cost.induct) simp_all













lemma invTerm_openSet [simp]:
  "invTerm nodes s (st\<lparr>openSet := os\<rparr>) = invTerm nodes s st"
  by (simp add: invTerm_def ranked_def simpleCosts_def)








































end
